theory Spec2Isabelle
  imports Complex_Main
begin

section \<open>Python values used by app.py\<close>

text \<open>
  A Python \<open>str\<close> is a sequence of Unicode code points, and \<open>len\<close> and slicing count
  code points. Strings are therefore lists of code points (natural numbers); \<open>lit\<close>
  embeds an ASCII literal.
\<close>

type_synonym pystr = "nat list"

definition lit :: "string \<Rightarrow> pystr" where
  "lit s = map of_char s"

datatype error =
    ValueError
  | IndexError
  | KeyError
  | TypeError
  | AttributeError
  | ZeroDivisionError
  | NameError
  | External pystr

subsection \<open>\<open>range(start, stop, step)\<close> and slices\<close>

function range_up :: "int \<Rightarrow> int \<Rightarrow> int \<Rightarrow> int list" where
  "range_up i stop step =
     (if 0 < step \<and> i < stop then i # range_up (i + step) stop step else [])"
  by pat_completeness auto
termination
  by (relation "measure (\<lambda>(i, stop, step). nat (stop - i))") auto

function range_down :: "int \<Rightarrow> int \<Rightarrow> int \<Rightarrow> int list" where
  "range_down i stop step =
     (if step < 0 \<and> stop < i then i # range_down (i + step) stop step else [])"
  by pat_completeness auto
termination
  by (relation "measure (\<lambda>(i, stop, step). nat (i - stop))") auto

declare range_up.simps [simp del] range_down.simps [simp del]

definition py_range :: "int \<Rightarrow> int \<Rightarrow> int \<Rightarrow> error + int list" where
  "py_range start stop step =
     (if step = 0 then Inl ValueError
      else if 0 < step then Inr (range_up start stop step)
      else Inr (range_down start stop step))"

definition slice_index :: "int \<Rightarrow> nat \<Rightarrow> nat" where
  \<comment> \<open>a slice bound: a negative bound counts from the end, and every bound is clamped\<close>
  "slice_index k n = (if k < 0 then nat (max 0 (k + int n)) else min (nat k) n)"

definition py_slice :: "'a list \<Rightarrow> int \<Rightarrow> int \<Rightarrow> 'a list" where
  \<comment> \<open>\<open>xs[a:b]\<close>\<close>
  "py_slice xs a b =
     (let lo = slice_index a (length xs); hi = slice_index b (length xs)
      in take (hi - lo) (drop lo xs))"

definition batches :: "'a list \<Rightarrow> int \<Rightarrow> error + 'a list list" where
  \<comment> \<open>the slices \<open>threads[i:i + batch]\<close> taken by the loop of \<open>summarise_threads\<close>, in order\<close>
  "batches ths batch =
     (case py_range 0 (int (length ths)) batch of
        Inl e \<Rightarrow> Inl e
      | Inr is \<Rightarrow> Inr (map (\<lambda>i. py_slice ths i (i + batch)) is))"

section \<open>Threads, JSON values and the collaborators\<close>

datatype json =
    JNull
  | JBool bool
  | JNumber rat
  | JString pystr
  | JArray "json list"
  | JObject "(pystr \<times> json) list"

text \<open>
  A dict is an association list in insertion order; \<open>d.get(k, default)\<close> is \<open>dict_get\<close>
  and \<open>d[k] = v\<close> is \<open>dict_set\<close>.
\<close>

definition dict_get :: "('k \<times> 'v) list \<Rightarrow> 'k \<Rightarrow> 'v \<Rightarrow> 'v" where
  "dict_get d k dflt = (case map_of d k of None \<Rightarrow> dflt | Some v \<Rightarrow> v)"

fun dict_set :: "('k \<times> 'v) list \<Rightarrow> 'k \<Rightarrow> 'v \<Rightarrow> ('k \<times> 'v) list" where
  "dict_set [] k v = [(k, v)]"
| "dict_set ((k', v') # d) k v = (if k' = k then (k, v) # d else (k', v') # dict_set d k v)"

text \<open>
  The dict that \<open>fetch_threads\<close> builds for a post, with the \<open>summary\<close> key that
  \<open>summarise_threads\<close> adds (\<open>None\<close> while the key is absent). \<open>fetch_threads\<close> builds a
  new dict for every post, so the elements of the list are distinct objects and an
  assignment to one of them is an update of its position in the list.
\<close>

record thread =
  id_field :: pystr
  title :: pystr
  body :: pystr
  comments :: pystr
  url :: pystr
  created :: pystr
  summary :: "json option"

type_synonym message = "pystr \<times> pystr"

datatype download_data = StrData pystr | BytesData "nat list"

text \<open>
  What a run does to its collaborators, in order: the calls on the placeholders and the
  progress bar handed to \<open>summarise_threads\<close>, the model calls, \<open>tick()\<close>,
  \<open>time.sleep\<close> (\<open>Progress\<close> carries the quotient \<open>done / total\<close> as an exact rational), and
  the Streamlit elements of the script (\<open>st.error\<close>, \<open>st.spinner\<close>,
  \<open>st.progress\<close>, \<open>st.success\<close>, \<open>st.expander\<close>, \<open>st.json\<close>, \<open>st.markdown\<close>,
  \<open>st.download_button\<close> with its label, data, file name and MIME type).
\<close>

datatype event =
    StatusMarkdown pystr
  | SampleMarkdown pystr
  | ModelCall pystr "message list"
  | Progress rat
  | Tick
  | Sleep rat
  | ErrorBox pystr
  | Spinner pystr
  | NewProgress rat
  | Success pystr
  | Expander pystr
  | JsonView "(pystr \<times> json) list list"
  | Markdown pystr
  | DownloadButton pystr download_data pystr pystr

text \<open>
  A submission as the forum client yields it: \<open>created_date\<close> is the UTC date
  \<open>%Y-%m-%d\<close> of \<open>created_utc\<close>, \<open>comment_bodies\<close> the bodies of the fully expanded
  comment list.
\<close>

record post =
  post_id :: pystr
  post_title :: pystr
  selftext :: "pystr option"
  comment_bodies :: "pystr list"
  post_url :: pystr
  created_date :: pystr

text \<open>
  A method call on an FPDF object: the method, its positional and its keyword
  arguments. A subclass of FPDF is its two callbacks, the calls made by \<open>header\<close> and the
  calls made by \<open>footer\<close> for the page number that \<open>page_no()\<close> returns. A document is
  its class and the calls made on it so far.
\<close>

datatype pyval = VInt int | VStr pystr | VBool bool | VBuffer

datatype pdf_op = Call string "pyval list" "(string \<times> pyval) list"

record pdf_class =
  header :: "pdf_op list"
  footer :: "nat \<Rightarrow> pdf_op list"

record pdf_doc =
  doc_class :: pdf_class
  history :: "pdf_op list"

text \<open>
  The collaborators: \<open>chat_completion n model msgs\<close> is the content of the first choice
  returned by the \<open>n\<close>-th call of \<open>openai.chat.completions.create\<close> (or the exception it
  raises), \<open>json_loads\<close> and \<open>json_dumps\<close> are the JSON parser and printer, \<open>randbelow n k\<close>
  is the index drawn by the \<open>n\<close>-th \<open>random.choice\<close> on a sequence of length \<open>k\<close>,
  \<open>py_str\<close> is \<open>str()\<close> on a parsed JSON value that is not a string, \<open>str_title\<close> is
  \<open>str.title\<close>, \<open>reddit_new sub limit\<close> is what iterating over
  \<open>reddit.subreddit(sub).new(limit=limit)\<close> and expanding the comments yields (a post,
  or the exception raised at that point), \<open>unidecode\<close> is the transliteration,
  \<open>fpdf_raises cls calls op\<close> is the exception, if any, that the call \<open>op\<close> raises on a
  document of class \<open>cls\<close> after the calls \<open>calls\<close>, and \<open>fpdf_output\<close> is the bytes that
  \<open>output\<close> produces for such a document.
\<close>

record env =
  chat_completion :: "nat \<Rightarrow> pystr \<Rightarrow> message list \<Rightarrow> error + pystr"
  json_loads :: "pystr \<Rightarrow> error + json"
  json_dumps :: "(pystr \<times> pystr) list \<Rightarrow> pystr"
  randbelow :: "nat \<Rightarrow> nat \<Rightarrow> nat"
  py_str :: "json \<Rightarrow> pystr"
  str_title :: "pystr \<Rightarrow> pystr"
  reddit_new :: "pystr \<Rightarrow> int \<Rightarrow> (error + post) list"
  unidecode :: "pystr \<Rightarrow> pystr"
  fpdf_raises :: "pdf_class \<Rightarrow> pdf_op list \<Rightarrow> pdf_op \<Rightarrow> error option"
  fpdf_output :: "pdf_class \<Rightarrow> pdf_op list \<Rightarrow> nat list"

section \<open>\<open>summarise_threads\<close>\<close>

text \<open>
  The state of a run of \<open>summarise_threads\<close>: the thread list (mutated in place), the
  counter \<open>done\<close>, the calls made on \<open>progress_bar\<close>, \<open>status_slot\<close>, \<open>sample_slot\<close>,
  \<open>timer_cb\<close>, \<open>time.sleep\<close> and the model in order, the number of model calls issued, and
  the positions whose \<open>summary\<close> key was assigned, in order of assignment.
\<close>

record sstate =
  threads :: "thread list"
  done_count :: nat
  events :: "event list"
  calls :: nat
  assigned :: "nat list"

definition emit :: "event \<Rightarrow> sstate \<Rightarrow> sstate" where
  "emit e st = st\<lparr>events := events st @ [e]\<rparr>"

definition thread_text :: "thread \<Rightarrow> pystr" where
  "thread_text t =
     title t @ [10, 10] @ take 4000 (body t) @ [10, 10] @ lit ''Comments:'' @ [10]
       @ take 6000 (comments t)"

definition build_payload :: "thread list \<Rightarrow> (pystr \<times> pystr) list" where
  "build_payload chunk = foldl (\<lambda>d t. dict_set d (id_field t) (thread_text t)) [] chunk"

definition system_prompt :: pystr where
  "system_prompt =
     lit ''You are a research summarizer. Infer what redditors are saying in the thread. Summarize so that it would be easy for a mid career professional with AI/ML background working at big tech. For each Reddit thread JSON {id:text} return JSON with keys ''
     @ lit ''gist (50 words), insight1, insight2, sentiment (positive/neutral/negative).''"

definition batch_messages :: "env \<Rightarrow> thread list \<Rightarrow> message list" where
  "batch_messages env chunk =
     [(lit ''system'', system_prompt),
      (lit ''user'', json_dumps env (build_payload chunk))]"

definition model_reply :: "env \<Rightarrow> nat \<Rightarrow> pystr \<Rightarrow> thread list \<Rightarrow> error + json" where
  \<comment> \<open>lines 117 and 118: the call and \<open>json.loads\<close> of its content\<close>
  "model_reply env n model chunk =
     (case chat_completion env n model (batch_messages env chunk) of
        Inl e \<Rightarrow> Inl e
      | Inr content \<Rightarrow> json_loads env content)"

definition set_summary :: "(pystr \<times> json) list \<Rightarrow> thread \<Rightarrow> thread" where
  \<comment> \<open>\<open>t["summary"] = summaries.get(t["id"], {})\<close>\<close>
  "set_summary kvs t = t\<lparr>summary := Some (dict_get kvs (id_field t) (JObject []))\<rparr>"

fun attach_summaries :: "json \<Rightarrow> nat \<Rightarrow> thread list \<Rightarrow> sstate \<Rightarrow> error option \<times> sstate" where
  "attach_summaries summaries pos [] st = (None, st)"
| "attach_summaries summaries pos (t # ts) st =
     (case summaries of
        JObject kvs \<Rightarrow>
          attach_summaries summaries (Suc pos) ts
            (st\<lparr>threads := (threads st)[pos := set_summary kvs t],
                assigned := assigned st @ [pos]\<rparr>)
      | _ \<Rightarrow> (Some AttributeError, st))"

definition announce :: "env \<Rightarrow> thread \<Rightarrow> sstate \<Rightarrow> error option \<times> sstate" where
  \<comment> \<open>lines 103 to 105; \<open>random.choice\<close> raises IndexError on an empty sequence\<close>
  "announce env first st =
     (let st1 = emit (StatusMarkdown (lit ''**Summarising:** '' @ take 80 (title first) @ [8230])) st
      in if threads st1 = [] then (Some IndexError, st1)
         else
           (let sample_thread =
                  threads st1 ! (randbelow env (calls st1) (length (threads st1))
                                   mod length (threads st1))
            in (None, emit (SampleMarkdown
                  (lit ''*Random thread:* **'' @ take 90 (title sample_thread) @ lit ''**'')) st1)))"

definition report_progress :: "nat \<Rightarrow> nat \<Rightarrow> sstate \<Rightarrow> error option \<times> sstate" where
  \<comment> \<open>lines 121 to 124; \<open>done / total\<close> raises ZeroDivisionError when \<open>total = 0\<close>\<close>
  "report_progress ntotal k st =
     (let st5 = st\<lparr>done_count := done_count st + k\<rparr>
      in if ntotal = 0 then (Some ZeroDivisionError, st5)
         else (None,
           emit (Sleep (1 / 2))
             (emit Tick (emit (Progress (of_nat (done_count st5) / of_nat ntotal)) st5))))"

definition summarise_batch ::
  "env \<Rightarrow> pystr \<Rightarrow> int \<Rightarrow> nat \<Rightarrow> int \<Rightarrow> sstate \<Rightarrow> error option \<times> sstate" where
  \<comment> \<open>one iteration of the loop, lines 98 to 124\<close>
  "summarise_batch env model batch ntotal i st =
     (let chunk = py_slice (threads st) i (i + batch) in
      (case chunk of
         [] \<Rightarrow> (Some IndexError, st)
       | first # rest \<Rightarrow>
          (case announce env first st of
             (Some e, st2) \<Rightarrow> (Some e, st2)
           | (None, st2) \<Rightarrow>
              (let st3 = (emit (ModelCall model (batch_messages env chunk)) st2)
                           \<lparr>calls := Suc (calls st2)\<rparr>
               in (case model_reply env (calls st2) model chunk of
                     Inl e \<Rightarrow> (Some e, st3)
                   | Inr summaries \<Rightarrow>
                      (case attach_summaries summaries
                              (slice_index i (length (threads st3))) chunk st3 of
                         (Some e, st4) \<Rightarrow> (Some e, st4)
                       | (None, st4) \<Rightarrow> report_progress ntotal (length chunk) st4))))))"

fun summarise_loop ::
  "env \<Rightarrow> pystr \<Rightarrow> int \<Rightarrow> nat \<Rightarrow> int list \<Rightarrow> sstate \<Rightarrow> error option \<times> sstate" where
  "summarise_loop env model batch ntotal [] st = (None, st)"
| "summarise_loop env model batch ntotal (i # is) st =
     (case summarise_batch env model batch ntotal i st of
        (Some e, st') \<Rightarrow> (Some e, st')
      | (None, st') \<Rightarrow> summarise_loop env model batch ntotal is st')"

definition summarise_threads ::
  "env \<Rightarrow> thread list \<Rightarrow> pystr \<Rightarrow> int \<Rightarrow> error option \<times> sstate" where
  "summarise_threads env ths model batch =
     (let ntotal = length ths;
          st0 = \<lparr>threads = ths, done_count = 0, events = [], calls = 0, assigned = []\<rparr>
      in case py_range 0 (int ntotal) batch of
           Inl e \<Rightarrow> (Some e, st0)
         | Inr is \<Rightarrow>
             (case summarise_loop env model batch ntotal is st0 of
                (Some e, st) \<Rightarrow> (Some e, st)
              | (None, st) \<Rightarrow>
                  (None, emit (StatusMarkdown (lit ''**Summarising complete!**'')) st)))"

text \<open>The defaults of the signature: \<open>model = "o3"\<close>, \<open>batch = 6\<close>.\<close>

definition default_model :: pystr where
  "default_model = lit ''o3''"

definition default_batch :: int where
  "default_batch = 6"

definition progress_values :: "event list \<Rightarrow> rat list" where
  "progress_values es = concat (map (\<lambda>e. case e of Progress r \<Rightarrow> [r] | _ \<Rightarrow> []) es)"

definition model_calls :: "event list \<Rightarrow> nat" where
  "model_calls es = length (filter (\<lambda>e. case e of ModelCall m msgs \<Rightarrow> True | _ \<Rightarrow> False) es)"

section \<open>\<open>generate_report\<close>\<close>

fun py_join :: "pystr \<Rightarrow> pystr list \<Rightarrow> pystr" where
  "py_join sep [] = []"
| "py_join sep [x] = x"
| "py_join sep (x # y # ys) = x @ sep @ py_join sep (y # ys)"

function dec :: "nat \<Rightarrow> pystr" where
  "dec n = (if n < 10 then [48 + n] else dec (n div 10) @ [48 + n mod 10])"
  by pat_completeness auto
termination
  by (relation "measure id") auto

declare dec.simps [simp del]

fun collect :: "('a \<Rightarrow> error + 'b) \<Rightarrow> 'a list \<Rightarrow> error + 'b list" where
  "collect f [] = Inr []"
| "collect f (x # xs) =
     (case f x of
        Inl e \<Rightarrow> Inl e
      | Inr y \<Rightarrow> (case collect f xs of Inl e \<Rightarrow> Inl e | Inr ys \<Rightarrow> Inr (y # ys)))"

definition fstring :: "env \<Rightarrow> json \<Rightarrow> pystr" where
  \<comment> \<open>a replacement field \<open>{v}\<close> of an f-string, for a parsed JSON value\<close>
  "fstring env v = (case v of JString s \<Rightarrow> s | _ \<Rightarrow> py_str env v)"

definition corpus_line :: "env \<Rightarrow> thread \<Rightarrow> (pystr \<times> json) list \<Rightarrow> pystr" where
  "corpus_line env t kvs =
     title t @ [32, 8211, 32] @ fstring env (dict_get kvs (lit ''gist'') (JString []))
       @ lit '' [URL]('' @ url t @ lit '')''"

definition corpus_entry :: "env \<Rightarrow> thread \<Rightarrow> error + pystr" where
  \<comment> \<open>\<open>t['summary']\<close> raises KeyError without the key, \<open>.get\<close> AttributeError on a non-dict\<close>
  "corpus_entry env t =
     (case summary t of
        None \<Rightarrow> Inl KeyError
      | Some (JObject kvs) \<Rightarrow> Inr (corpus_line env t kvs)
      | Some _ \<Rightarrow> Inl AttributeError)"

definition corpus_limit :: nat where
  "corpus_limit = 15000"

definition build_corpus :: "env \<Rightarrow> thread list \<Rightarrow> error + pystr" where
  \<comment> \<open>lines 128 to 130\<close>
  "build_corpus env ths =
     (case collect (corpus_entry env) ths of
        Inl e \<Rightarrow> Inl e
      | Inr entries \<Rightarrow> Inr (take corpus_limit (py_join [10, 10] entries)))"

definition q_block :: "pystr list \<Rightarrow> pystr" where
  "q_block qs =
     py_join [10] (map (\<lambda>(i, q). lit ''Q'' @ dec (i + 1) @ lit ''. '' @ q) (zip [0..<length qs] qs))"

definition prompt :: "env \<Rightarrow> pystr \<Rightarrow> pystr" where
  "prompt env genre =
     lit ''You are an analyst assisting a mid career professional, an AI engineer currently an Engineering manager, honing their craft; advancing their career. ''
     @ lit ''**'' @ str_title env genre @ lit ''** genre. You have mined Reddit audience discussions. ''
     @ lit ''First, give a one'' @ [8209] @ lit ''paragraph snapshot of overall audience sentiment for this subreddit. ''
     @ lit ''Then, answer each research question in its own subsection ('' @ [8804] @ lit ''2 paragraphs each), call out any FIRST principles that the reader should know ''
     @ lit ''adding citations in [Title](URL) form right after every key evidence point. ''
     @ lit ''Finish with a bold **list of ACTIONABLE INSIGHTS**: 3 points for surviving in the AI era, especially as a mid-career Engineering Manager in Big tech industry.''"

definition report_messages :: "env \<Rightarrow> pystr \<Rightarrow> nat \<Rightarrow> pystr \<Rightarrow> pystr list \<Rightarrow> message list" where
  "report_messages env genre n corpus qs =
     [(lit ''system'', prompt env genre),
      (lit ''assistant'', lit ''CORPUS ('' @ dec n @ lit '' threads):'' @ [10] @ corpus),
      (lit ''user'', q_block qs)]"

definition generate_report ::
  "env \<Rightarrow> nat \<Rightarrow> pystr \<Rightarrow> thread list \<Rightarrow> pystr list \<Rightarrow> (error + pystr) \<times> event list" where
  \<comment> \<open>the second argument is the number of model calls issued before\<close>
  "generate_report env ncalls genre ths qs =
     (case build_corpus env ths of
        Inl e \<Rightarrow> (Inl e, [])
      | Inr corpus \<Rightarrow>
          (let msgs = report_messages env genre (length ths) corpus qs
           in (case chat_completion env ncalls (lit ''o3'') msgs of
                 Inl e \<Rightarrow> (Inl e, [ModelCall (lit ''o3'') msgs])
               | Inr content \<Rightarrow> (Inr content, [ModelCall (lit ''o3'') msgs, Tick]))))"

section \<open>The script: inputs and guards\<close>

definition line_break :: "nat \<Rightarrow> bool" where
  \<comment> \<open>the line boundaries of \<open>str.splitlines\<close>, \<open>\r\n\<close> apart\<close>
  "line_break c = (c \<in> {10, 11, 12, 13, 28, 29, 30, 133, 8232, 8233})"

fun splitlines_from :: "pystr \<Rightarrow> pystr \<Rightarrow> pystr list" where
  "splitlines_from cur [] = (if cur = [] then [] else [rev cur])"
| "splitlines_from cur [c] =
     (if line_break c then [rev cur] else [rev (c # cur)])"
| "splitlines_from cur (c # d # cs) =
     (if c = 13 \<and> d = 10 then rev cur # splitlines_from [] cs
      else if line_break c then rev cur # splitlines_from [] (d # cs)
      else splitlines_from (c # cur) (d # cs))"

definition splitlines :: "pystr \<Rightarrow> pystr list" where
  "splitlines s = splitlines_from [] s"

definition isspace :: "nat \<Rightarrow> bool" where
  \<comment> \<open>the characters that \<open>str.strip()\<close> removes\<close>
  "isspace c =
     ((9 \<le> c \<and> c \<le> 13) \<or> (28 \<le> c \<and> c \<le> 32) \<or> c = 133 \<or> c = 160 \<or> c = 5760
      \<or> (8192 \<le> c \<and> c \<le> 8202) \<or> c = 8232 \<or> c = 8233 \<or> c = 8239 \<or> c = 8287
      \<or> c = 12288)"

definition strip :: "pystr \<Rightarrow> pystr" where
  "strip s = rev (dropWhile isspace (rev (dropWhile isspace s)))"

definition nonblank_lines :: "pystr \<Rightarrow> pystr list" where
  \<comment> \<open>\<open>[q.strip() for q in qs_text.splitlines() if q.strip()]\<close>\<close>
  "nonblank_lines qs_text = map strip (filter (\<lambda>q. strip q \<noteq> []) (splitlines qs_text))"

definition questions :: "pystr \<Rightarrow> pystr list" where
  \<comment> \<open>line 172\<close>
  "questions qs_text = take 5 (nonblank_lines qs_text)"


section \<open>\<open>fetch_threads\<close>\<close>

definition thread_of_post :: "post \<Rightarrow> thread" where
  "thread_of_post p =
     \<lparr>id_field = post_id p, title = post_title p,
      body = (case selftext p of None \<Rightarrow> [] | Some s \<Rightarrow> s),
      comments = py_join [32] (comment_bodies p),
      url = post_url p, created = created_date p, summary = None\<rparr>"

fun fetch_loop :: "(error + post) list \<Rightarrow> thread list \<Rightarrow> (error + thread list) \<times> event list" where
  "fetch_loop [] acc = (Inr acc, [])"
| "fetch_loop (Inl e # ps) acc = (Inl e, [])"
| "fetch_loop (Inr p # ps) acc =
     (case fetch_loop ps (acc @ [thread_of_post p]) of (r, evs) \<Rightarrow> (r, Tick # evs))"

definition fetch_threads :: "env \<Rightarrow> pystr \<Rightarrow> int \<Rightarrow> (error + thread list) \<times> event list" where
  "fetch_threads env sub limit = fetch_loop (reddit_new env sub limit) []"

section \<open>The document exporter\<close>

definition pdf_call :: "env \<Rightarrow> pdf_doc \<Rightarrow> pdf_op \<Rightarrow> error option \<times> pdf_doc" where
  "pdf_call env d op =
     (fpdf_raises env (doc_class d) (history d) op, d\<lparr>history := history d @ [op]\<rparr>)"

fun pdf_calls :: "env \<Rightarrow> pdf_doc \<Rightarrow> pdf_op list \<Rightarrow> error option \<times> pdf_doc" where
  "pdf_calls env d [] = (None, d)"
| "pdf_calls env d (op # ops) =
     (case pdf_call env d op of
        (Some e, d') \<Rightarrow> (Some e, d')
      | (None, d') \<Rightarrow> pdf_calls env d' ops)"

definition multi_cell :: "pystr \<Rightarrow> pdf_op" where
  "multi_cell text = Call ''multi_cell'' [VInt 0, VInt 7, VStr text] []"

definition PDF :: pdf_class where
  \<comment> \<open>the class of lines 211 to 225\<close>
  "PDF =
     \<lparr>header =
        [Call ''set_font'' [VStr (lit ''Arial''), VStr (lit ''B''), VInt 12] [],
         Call ''cell'' [VInt 0, VInt 10, VStr (lit ''Reddit Research Report'')]
           [(''ln'', VBool True), (''align'', VStr (lit ''C''))]],
      footer = (\<lambda>page_no.
        [Call ''set_y'' [VInt (- 15)] [],
         Call ''set_font'' [VStr (lit ''Arial''), VStr (lit ''I''), VInt 8] [],
         Call ''cell'' [VInt 0, VInt 10, VStr (lit ''Page '' @ dec page_no)]
           [(''align'', VStr (lit ''C''))]])\<rparr>"

definition set_body_font :: pdf_op where
  "set_body_font = Call ''set_font'' [VStr (lit ''Arial''), VStr [], VInt 11] []"

definition chapter_body :: "env \<Rightarrow> pdf_doc \<Rightarrow> pystr \<Rightarrow> error option \<times> pdf_doc" where
  \<comment> \<open>lines 220 to 225; the bare \<open>except\<close> catches whatever the first \<open>multi_cell\<close> raises\<close>
  "chapter_body env d text =
     (case pdf_call env d set_body_font of
        (Some e, d1) \<Rightarrow> (Some e, d1)
      | (None, d1) \<Rightarrow>
          (case pdf_call env d1 (multi_cell (unidecode env text)) of
             (None, d2) \<Rightarrow> (None, d2)
           | (Some e, d2) \<Rightarrow> pdf_call env d2 (multi_cell (lit ''Exception''))))"

definition PDF' :: pdf_class where
  \<comment> \<open>the class of lines 237 to 258, which rebinds the name \<open>PDF\<close>\<close>
  "PDF' =
     \<lparr>header =
        [Call ''set_font'' [VStr (lit ''Helvetica''), VStr (lit ''B''), VInt 12] [],
         Call ''cell'' [VInt 0, VInt 10, VStr (lit ''Reddit Research Report'')]
           [(''new_x'', VStr (lit ''LMARGIN'')), (''new_y'', VStr (lit ''NEXT'')),
            (''align'', VStr (lit ''C''))]],
      footer = (\<lambda>page_no.
        [Call ''set_y'' [VInt (- 15)] [],
         Call ''set_font'' [VStr (lit ''Helvetica''), VStr (lit ''I''), VInt 8] [],
         Call ''cell'' [VInt 0, VInt 10, VStr (lit ''Page '' @ dec page_no)]
           [(''align'', VStr (lit ''C''))]])\<rparr>"

definition build_pdf :: "env \<Rightarrow> pystr \<Rightarrow> error + nat list" where
  \<comment> \<open>the body of the function defined at line 247, inside the class statement; the last
      call is \<open>.encode("latin-1")\<close> on what \<open>output\<close> returned\<close>
  "build_pdf env text =
     (case pdf_calls env \<lparr>doc_class = PDF', history = []\<rparr>
             [Call ''__init__'' [] [],
              Call ''set_auto_page_break'' [] [(''auto'', VBool True), (''margin'', VInt 15)],
              Call ''add_page'' [] [],
              Call ''set_font'' [VStr (lit ''Helvetica'')] [(''size'', VInt 11)],
              multi_cell (unidecode env text),
              Call ''output'' [] [(''dest'', VStr (lit ''S''))],
              Call ''output.encode'' [VStr (lit ''latin-1'')] []] of
        (Some e, d) \<Rightarrow> Inl e
      | (None, d) \<Rightarrow> Inr (fpdf_output env (doc_class d) (history d)))"

text \<open>
  The names bound in the module namespace when line 259 runs: the imports and the
  assignments, \<open>def\<close> and \<open>class\<close> statements at the top level of the script. The \<open>def\<close>
  statements inside a class body (\<open>header\<close>, \<open>footer\<close>, \<open>chapter_body\<close>, \<open>build_pdf\<close>) bind
  attributes of the class, not names of the module, and no builtin is called
  \<open>build_pdf\<close>.
\<close>

definition module_names :: "string list" where
  "module_names =
     [''os'', ''json'', ''time'', ''random'', ''io'', ''datetime'', ''timezone'', ''List'',
      ''Dict'', ''Callable'', ''unidecode'', ''st'', ''load_dotenv'', ''openai'', ''praw'',
      ''FPDF'', ''REDDIT_CLIENT_ID'', ''REDDIT_CLIENT_SECRET'', ''REDDIT_USER_AGENT'',
      ''reddit'', ''GENRE_DEFAULT_SUB'', ''fetch_threads'', ''summarise_threads'',
      ''generate_report'', ''ticker'', ''start_time'', ''tick'', ''col1'', ''col2'',
      ''genre_input'', ''n_posts'', ''subreddit'', ''qs_text'', ''questions'', ''threads'',
      ''progress'', ''status'', ''sample_preview'', ''report_md'', ''txt_buf'', ''PDF'',
      ''pdf'', ''pdf_output'']"

datatype outcome = Completed | Stopped | Raised error

definition txt_buf :: "pystr \<Rightarrow> pystr" where
  \<comment> \<open>lines 205 to 207: the value of a new \<open>io.StringIO\<close> after one \<open>write\<close>\<close>
  "txt_buf report_md = [] @ report_md"

definition text_download :: "pystr \<Rightarrow> event" where
  "text_download report_md =
     DownloadButton ([128196] @ lit '' Download as .txt'') (StrData (txt_buf report_md))
       (lit ''reddit_research_report.txt'') (lit ''text/plain'')"

definition first_pdf :: "env \<Rightarrow> pystr \<Rightarrow> error option \<times> pdf_doc" where
  \<comment> \<open>lines 228 to 232\<close>
  "first_pdf env report_md =
     (case pdf_calls env \<lparr>doc_class = PDF, history = []\<rparr>
             [Call ''__init__'' [] [], Call ''add_page'' [] []] of
        (Some e, d) \<Rightarrow> (Some e, d)
      | (None, d) \<Rightarrow>
          (case chapter_body env d report_md of
             (Some e, d') \<Rightarrow> (Some e, d')
           | (None, d') \<Rightarrow> pdf_call env d' (Call ''output'' [VBuffer] [])))"

definition export_stage :: "env \<Rightarrow> pystr \<Rightarrow> outcome \<times> event list" where
  \<comment> \<open>lines 201 to 262\<close>
  "export_stage env report_md =
     (case first_pdf env report_md of
        (Some e, d) \<Rightarrow> (Raised e, [text_download report_md])
      | (None, d) \<Rightarrow>
          (let shown =
                 [text_download report_md,
                  DownloadButton ([128216] @ lit '' Download as .pdf'')
                    (BytesData (fpdf_output env (doc_class d) (history d)))
                    (lit ''reddit_research_report.pdf'') (lit ''application/pdf'')]
           in if ''build_pdf'' \<in> set module_names
              then (case build_pdf env report_md of
                      Inl e \<Rightarrow> (Raised e, shown)
                    | Inr pdf_bytes \<Rightarrow>
                        (Completed,
                         shown @
                         [DownloadButton ([128216] @ lit '' Download as .pdf'') (BytesData pdf_bytes)
                            (lit ''reddit_research_report.pdf'') (lit ''application/pdf''),
                          Tick]))
              else (Raised NameError, shown)))"


section \<open>The run\<close>

definition gist_row :: "thread \<Rightarrow> error + (pystr \<times> json) list" where
  \<comment> \<open>line 193: \<open>{"title": t["title"], **t["summary"], "url": t["url"]}\<close>\<close>
  "gist_row t =
     (case summary t of
        None \<Rightarrow> Inl KeyError
      | Some (JObject kvs) \<Rightarrow>
          Inr (dict_set
                 (foldl (\<lambda>d (k, v). dict_set d k v) [(lit ''title'', JString (title t))] kvs)
                 (lit ''url'') (JString (url t)))
      | Some _ \<Rightarrow> Inl TypeError)"

definition pipeline ::
  "env \<Rightarrow> pystr \<Rightarrow> int \<Rightarrow> pystr \<Rightarrow> pystr list \<Rightarrow> outcome \<times> event list" where
  \<comment> \<open>lines 182 to 262\<close>
  "pipeline env subreddit n_posts genre_input qs =
     (let ev1 = [Spinner ([9935, 65039] @ lit '' Fetching threads + comments'' @ [8230])]
      in (case fetch_threads env subreddit n_posts of
            (Inl e, evs) \<Rightarrow> (Raised e, ev1 @ evs)
          | (Inr ths, evs) \<Rightarrow>
             (let ev2 = ev1 @ evs @ [NewProgress 0, Spinner ([128221] @ lit '' Summarising'' @ [8230])]
              in (case summarise_threads env ths default_model default_batch of
                    (Some e, st) \<Rightarrow> (Raised e, ev2 @ events st)
                  | (None, st) \<Rightarrow>
                     (let ev3 = ev2 @ events st @
                            [Success (lit ''Summarised '' @ dec (length (threads st))
                                        @ lit '' threads from r/'' @ subreddit @ lit ''.''),
                             Expander ([128269] @ lit '' Gists & insights'')]
                      in (case collect gist_row (threads st) of
                            Inl e \<Rightarrow> (Raised e, ev3)
                          | Inr rows \<Rightarrow>
                             (let ev4 = ev3 @ [JsonView rows,
                                               Spinner ([129504] @ lit '' Crafting final report'' @ [8230])]
                              in (case generate_report env (calls st) genre_input (threads st) qs of
                                    (Inl e, evs') \<Rightarrow> (Raised e, ev4 @ evs')
                                  | (Inr report_md, evs') \<Rightarrow>
                                     (let ev5 = ev4 @ evs' @
                                            [Markdown (lit ''## '' @ [128202] @ lit '' Audience'' @ [8209]
                                                         @ lit ''Driven Report''),
                                             Markdown report_md,
                                             Markdown (lit ''## '' @ [128229] @ lit '' Download Report'')]
                                      in (case export_stage env report_md of
                                            (r, evs'') \<Rightarrow> (r, ev5 @ evs'')))))))))))"

definition run_research ::
  "env \<Rightarrow> pystr \<Rightarrow> int \<Rightarrow> pystr \<Rightarrow> pystr \<Rightarrow> outcome \<times> event list" where
  \<comment> \<open>the body of \<open>if st.button(...)\<close>, lines 175 to 262, for the widget values\<close>
  "run_research env subreddit_text n_posts genre_input qs_text =
     (let subreddit = strip subreddit_text
      in if subreddit = [] then (Stopped, [ErrorBox (lit ''Please specify a subreddit.'')])
         else if questions qs_text = []
         then (Stopped, [ErrorBox (lit ''Enter at least one research question.'')])
         else pipeline env subreddit n_posts genre_input (questions qs_text))"

section \<open>Concrete inputs\<close>

text \<open>A well-behaved environment and a thread, for concrete runs.\<close>

definition demo_env :: env where
  "demo_env =
     \<lparr>chat_completion = (\<lambda>n model msgs. Inr (lit ''{}'')),
      json_loads = (\<lambda>content. Inr (JObject [])),
      json_dumps = (\<lambda>payload. []),
      randbelow = (\<lambda>n k. 0),
      py_str = (\<lambda>v. []),
      str_title = (\<lambda>s. s),
      reddit_new = (\<lambda>sub limit. []),
      unidecode = (\<lambda>s. s),
      fpdf_raises = (\<lambda>cls calls op. None),
      fpdf_output = (\<lambda>cls calls. [37, 80, 68, 70])\<rparr>"

definition demo_thread :: thread where
  "demo_thread =
     \<lparr>id_field = lit ''t1'', title = lit ''A title'', body = [], comments = lit ''nice'',
      url = lit ''https://example.org/t1'', created = lit ''2025-01-01'', summary = None\<rparr>"

definition summarised_thread :: thread where
  "summarised_thread = demo_thread\<lparr>summary := Some (JObject [(lit ''gist'', JString (lit ''A gist''))])\<rparr>"

definition long_thread :: thread where
  "long_thread = demo_thread\<lparr>title := replicate 15001 65, summary := Some (JObject [])\<rparr>"

definition blank_text :: pystr where
  "blank_text = [32, 32, 10, 9, 13, 10]"

definition six_questions :: pystr where
  "six_questions = [97, 10, 32, 98, 32, 10, 10, 99, 13, 10, 100, 10, 101, 10, 102, 10]"


definition demo_post :: post where
  "demo_post =
     \<lparr>post_id = lit ''t1'', post_title = lit ''A title'', selftext = None,
      comment_bodies = [lit ''nice'', lit ''indeed''], post_url = lit ''https://example.org/t1'',
      created_date = lit ''2025-01-01''\<rparr>"

definition forum_env :: env where
  \<comment> \<open>the well-behaved environment, on a forum that yields one post\<close>
  "forum_env = demo_env\<lparr>reddit_new := (\<lambda>sub limit. [Inr demo_post])\<rparr>"

section \<open>Batching\<close>

lemma py_slice_step:
  assumes "0 \<le> i" and "0 < b"
  shows "py_slice xs i (i + b) = take (nat b) (drop (nat i) xs)"
proof -
  have lo: "slice_index i (length xs) = min (nat i) (length xs)"
    using assms by (simp add: slice_index_def)
  have hi: "slice_index (i + b) (length xs) = min (nat i + nat b) (length xs)"
    using assms by (simp add: slice_index_def nat_add_distrib)
  show ?thesis
  proof (cases "nat i \<le> length xs")
    case True
    then show ?thesis
      unfolding py_slice_def Let_def lo hi
      by (simp add: min_def)
  next
    case False
    then show ?thesis
      unfolding py_slice_def Let_def lo hi by simp
  qed
qed

lemma concat_slices_from:
  "0 < b \<Longrightarrow> 0 \<le> i \<Longrightarrow> stop = int (length xs) \<Longrightarrow>
    concat (map (\<lambda>j. py_slice xs j (j + b)) (range_up i stop b)) = drop (nat i) xs"
proof (induction i stop b rule: range_up.induct)
  case (1 i stop step)
  show ?case
  proof (cases "i < stop")
    case True
    have unfold: "range_up i stop step = i # range_up (i + step) stop step"
      using True "1.prems" by (subst range_up.simps) simp
    have rest: "concat (map (\<lambda>j. py_slice xs j (j + step)) (range_up (i + step) stop step))
                = drop (nat (i + step)) xs"
      using "1.IH" "1.prems" True by simp
    have "nat (i + step) = nat step + nat i"
      using "1.prems" by (simp add: nat_add_distrib)
    then have d: "drop (nat (i + step)) xs = drop (nat step) (drop (nat i) xs)"
      by simp
    have "take (nat step) (drop (nat i) xs) @ drop (nat (i + step)) xs = drop (nat i) xs"
      unfolding d by (rule append_take_drop_id)
    then show ?thesis
      using unfold rest py_slice_step [of i step xs] "1.prems" by simp
  next
    case False
    have "range_up i stop step = []"
      using False by (subst range_up.simps) simp
    moreover have "drop (nat i) xs = []"
      using False "1.prems" by simp
    ultimately show ?thesis by simp
  qed
qed

text \<open>
  C5. For every thread list and every batch size \<open>b \<ge> 1\<close>, the consecutive slices
  \<open>threads[i:i + b]\<close> for \<open>i\<close> in \<open>range(0, len(threads), b)\<close>, concatenated in order,
  are the original list: same elements, same order, same count.
\<close>

theorem batches_concat:
  assumes "1 \<le> b"
  shows "\<exists>cs. batches ths b = Inr cs \<and> concat cs = ths
           \<and> length (concat cs) = length ths"
proof -
  have pos: "0 < b" using assms by simp
  have "concat (map (\<lambda>j. py_slice ths j (j + b)) (range_up 0 (int (length ths)) b))
          = ths"
    using concat_slices_from [OF pos, of 0 "int (length ths)" ths] by simp
  then show ?thesis
    using pos by (simp add: batches_def py_range_def)
qed

theorem batches_concat_witness:
  "(1::int) \<le> 2 \<and>
   batches [10::nat, 20, 30, 40, 50] 2 = Inr [[10, 20], [30, 40], [50]] \<and>
   concat [[10::nat, 20], [30, 40], [50]] = [10, 20, 30, 40, 50]"
proof -
  have h: "(1::int) \<le> 2" by simp
  have e: "batches [10::nat, 20, 30, 40, 50] 2 = Inr [[10, 20], [30, 40], [50]]"
    by (simp add: batches_def py_range_def range_up.simps py_slice_def slice_index_def)
  show ?thesis
    using h e batches_concat [OF h, of "[10::nat, 20, 30, 40, 50]"] by simp
qed

section \<open>The summarisation loop\<close>

lemma attach_summaries_object:
  "pos + length chunk \<le> length (threads st) \<Longrightarrow>
   attach_summaries (JObject kvs) pos chunk st =
     (None, st\<lparr>threads := take pos (threads st) @ map (set_summary kvs) chunk
                              @ drop (pos + length chunk) (threads st),
                 assigned := assigned st @ [pos..<pos + length chunk]\<rparr>)"
proof (induction chunk arbitrary: pos st)
  case Nil
  then show ?case by simp
next
  case (Cons t ts)
  let ?st = "st\<lparr>threads := (threads st)[pos := set_summary kvs t],
                   assigned := assigned st @ [pos]\<rparr>"
  have len: "Suc pos + length ts \<le> length (threads ?st)"
    using Cons.prems by simp
  have lt: "pos < length (threads st)"
    using Cons.prems by simp
  have tk: "take (Suc pos) ((threads st)[pos := set_summary kvs t])
              = take pos (threads st) @ [set_summary kvs t]"
    using lt by (simp add: take_Suc_conv_app_nth)
  have up: "[pos..<Suc (pos + length ts)] = pos # [Suc pos..<Suc (pos + length ts)]"
    by (subst upt_rec) simp
  show ?case
    using Cons.IH [OF len] tk up by simp
qed

lemma attach_summaries_not_object:
  "chunk \<noteq> [] \<Longrightarrow> \<forall>kvs. summaries \<noteq> JObject kvs \<Longrightarrow>
   attach_summaries summaries pos chunk st = (Some AttributeError, st)"
  by (cases chunk; cases summaries) auto


lemma chunk_slice:
  assumes "0 < b" "0 \<le> i" "i < int (length xs)"
  shows "py_slice xs i (i + b) = take (nat b) (drop (nat i) xs)"
    and "take (nat b) (drop (nat i) xs) \<noteq> []"
    and "slice_index i (length xs) = nat i"
    and "nat i + length (take (nat b) (drop (nat i) xs)) \<le> length xs"
  using assms py_slice_step [of i b xs] by (auto simp: slice_index_def)

lemma announce_ok:
  "threads st \<noteq> [] \<Longrightarrow>
   \<exists>e1 e2. announce env first st =
     (None, st\<lparr>events := events st @ [StatusMarkdown e1, SampleMarkdown e2]\<rparr>)"
  by (simp add: announce_def emit_def Let_def) blast

lemma summarise_batch_object:
  assumes b: "0 < b" and i0: "0 \<le> i" and lt: "i < int (length (threads st))"
    and nt: "ntotal = length (threads st)"
    and chunk: "chunk = take (nat b) (drop (nat i) (threads st))"
    and reply: "model_reply env (calls st) model chunk = Inr (JObject kvs)"
  shows "\<exists>st'. summarise_batch env model b ntotal i st = (None, st') \<and>
     threads st' = take (nat i) (threads st) @ map (set_summary kvs) chunk
                     @ drop (nat i + length chunk) (threads st) \<and>
     done_count st' = done_count st + length chunk \<and>
     calls st' = Suc (calls st) \<and>
     assigned st' = assigned st @ [nat i..<nat i + length chunk] \<and>
     (\<exists>e1 e2. events st' = events st @
        [StatusMarkdown e1, SampleMarkdown e2, ModelCall model (batch_messages env chunk),
         Progress (of_nat (done_count st + length chunk) / of_nat ntotal), Tick, Sleep (1 / 2)])"
proof -
  note sl = chunk_slice [OF b i0 lt]
  have ne: "threads st \<noteq> []" using lt i0 by auto
  have "chunk \<noteq> []" using sl(2) chunk by simp
  then obtain first rest where fr: "chunk = first # rest"
    by (cases chunk) simp_all
  obtain e1 e2 where an: "announce env first st =
      (None, st\<lparr>events := events st @ [StatusMarkdown e1, SampleMarkdown e2]\<rparr>)"
    using announce_ok [OF ne] by blast
  let ?st2 = "st\<lparr>events := events st @ [StatusMarkdown e1, SampleMarkdown e2]\<rparr>"
  let ?st3 = "(emit (ModelCall model (batch_messages env chunk)) ?st2)\<lparr>calls := Suc (calls ?st2)\<rparr>"
  have bound: "nat i + length chunk \<le> length (threads ?st3)"
    using sl(4) chunk by (simp add: emit_def)
  have at: "attach_summaries (JObject kvs) (nat i) chunk ?st3 =
     (None, ?st3\<lparr>threads := take (nat i) (threads ?st3) @ map (set_summary kvs) chunk
                              @ drop (nat i + length chunk) (threads ?st3),
                 assigned := assigned ?st3 @ [nat i..<nat i + length chunk]\<rparr>)"
    by (rule attach_summaries_object [OF bound])
  have n0: "ntotal \<noteq> 0" using nt ne by simp
  have sl1: "py_slice (threads st) i (i + b) = chunk" using sl(1) chunk by simp
  show ?thesis
    unfolding summarise_batch_def Let_def sl1
    using an reply at n0 sl(3)
    by (simp add: fr report_progress_def emit_def Let_def)
qed


lemma segment_update:
  assumes "ys = take p xs @ map f (take m (drop p xs))
                  @ drop (p + length (take m (drop p xs))) xs"
  shows "length ys = length xs"
    and "k < length xs \<Longrightarrow> ys ! k = (if p \<le> k \<and> k < p + m then f (xs ! k) else xs ! k)"
proof -
  show "length ys = length xs"
    unfolding assms by (simp add: min_def)
  show "ys ! k = (if p \<le> k \<and> k < p + m then f (xs ! k) else xs ! k)" if "k < length xs"
  proof (cases "k < p")
    case True
    then show ?thesis unfolding assms using that by (simp add: nth_append)
  next
    case False
    show ?thesis
    proof (cases "k < p + m")
      case True
      have "k - p < length (take m (drop p xs))" using True False that by auto
      then show ?thesis
        unfolding assms using True False that by (simp add: nth_append min_def)
    next
      case False
      then show ?thesis
        unfolding assms using \<open>\<not> k < p\<close> that
        by (auto simp add: nth_append min_def)
    qed
  qed
qed

lemma summarise_batch_abort:
  assumes b: "0 < b" and i0: "0 \<le> i" and lt: "i < int (length (threads st))"
    and chunk: "chunk = take (nat b) (drop (nat i) (threads st))"
    and reply: "\<forall>kvs. model_reply env (calls st) model chunk \<noteq> Inr (JObject kvs)"
  shows "\<exists>e st'. summarise_batch env model b ntotal i st = (Some e, st') \<and>
     threads st' = threads st \<and> assigned st' = assigned st"
proof -
  note sl = chunk_slice [OF b i0 lt]
  have ne: "threads st \<noteq> []" using lt i0 by auto
  have cne: "chunk \<noteq> []" using sl(2) chunk by simp
  then obtain first rest where fr: "chunk = first # rest"
    by (cases chunk) simp_all
  obtain e1 e2 where an: "announce env first st =
      (None, st\<lparr>events := events st @ [StatusMarkdown e1, SampleMarkdown e2]\<rparr>)"
    using announce_ok [OF ne] by blast
  have sl1: "py_slice (threads st) i (i + b) = chunk" using sl(1) chunk by simp
  show ?thesis
  proof (cases "model_reply env (calls st) model chunk")
    case (Inl e)
    then show ?thesis
      unfolding summarise_batch_def Let_def sl1 using an
      by (simp add: fr emit_def)
  next
    case (Inr summaries)
    then have "\<forall>kvs. summaries \<noteq> JObject kvs" using reply by simp
    then have "\<And>pos st. attach_summaries summaries pos chunk st = (Some AttributeError, st)"
      using attach_summaries_not_object [OF cne] by blast
    then show ?thesis
      unfolding summarise_batch_def Let_def sl1 using an Inr
      by (simp add: fr emit_def)
  qed
qed


lemma upt_split_batch:
  assumes "p < n" "0 < m" "n = length xs"
  shows "[p..<p + length (take m (drop p (xs::'a list)))] @ [p + m..<length xs] = [p..<length xs]"
proof (cases "p + m \<le> length xs")
  case True
  then have "length (take m (drop p xs)) = m" by simp
  moreover have "[p..<p + m] @ [p + m..<length xs] = [p..<length xs]"
    using True by (metis le_add1 upt_add_eq_append le_Suc_ex)
  ultimately show ?thesis by simp
next
  case False
  then have "length (take m (drop p xs)) = length xs - p" by simp
  then show ?thesis using False assms by simp
qed

lemma summarise_loop_frame:
  "0 < b \<Longrightarrow> 0 \<le> i \<Longrightarrow> stop = int (length (threads st)) \<Longrightarrow> ntotal = length (threads st) \<Longrightarrow>
   \<exists>r st'. summarise_loop env model b ntotal (range_up i stop b) st = (r, st') \<and>
      length (threads st') = length (threads st) \<and>
      (\<forall>k<length (threads st).
          threads st' ! k = (threads st ! k)\<lparr>summary := summary (threads st' ! k)\<rparr>) \<and>
      (\<forall>k<length (threads st). k < nat i \<longrightarrow> threads st' ! k = threads st ! k) \<and>
      (r = None \<longrightarrow> assigned st' = assigned st @ [nat i..<length (threads st)])"
proof (induction i stop b arbitrary: st rule: range_up.induct)
  case (1 i stop step)
  let ?n = "length (threads st)"
  show ?case
  proof (cases "i < stop")
    case False
    have "range_up i stop step = []"
      using False by (subst range_up.simps) simp
    moreover have "[nat i..<?n] = []" using False "1.prems" by simp
    ultimately show ?thesis by simp
  next
    case True
    have unfold: "range_up i stop step = i # range_up (i + step) stop step"
      using True "1.prems" by (subst range_up.simps) simp
    have lt: "i < int ?n" using True "1.prems" by simp
    define chunk where "chunk = take (nat step) (drop (nat i) (threads st))"
    show ?thesis
    proof (cases "\<exists>kvs. model_reply env (calls st) model chunk = Inr (JObject kvs)")
      case False
      then obtain e st1 where
        ab: "summarise_batch env model step ntotal i st = (Some e, st1)"
            "threads st1 = threads st" "assigned st1 = assigned st"
        using summarise_batch_abort [OF "1.prems"(1,2) lt chunk_def, of env model ntotal] by blast
      show ?thesis unfolding unfold using ab by simp
    next
      case True
      then obtain kvs where reply: "model_reply env (calls st) model chunk = Inr (JObject kvs)"
        by blast
      obtain st1 where
        ok: "summarise_batch env model step ntotal i st = (None, st1)"
        and th1: "threads st1 = take (nat i) (threads st) @ map (set_summary kvs) chunk
                     @ drop (nat i + length chunk) (threads st)"
        and as1: "assigned st1 = assigned st @ [nat i..<nat i + length chunk]"
        using summarise_batch_object [OF "1.prems"(1,2) lt "1.prems"(4) chunk_def reply] by blast
      note seg = segment_update [OF th1 [unfolded chunk_def]]
      have len1: "length (threads st1) = ?n" by (rule seg(1))
      obtain r st' where
        run: "summarise_loop env model step ntotal (range_up (i + step) stop step) st1 = (r, st')"
        and len': "length (threads st') = length (threads st1)"
        and fr': "\<forall>k<length (threads st1).
            threads st' ! k = (threads st1 ! k)\<lparr>summary := summary (threads st' ! k)\<rparr>"
        and pre': "\<forall>k<length (threads st1). k < nat (i + step) \<longrightarrow> threads st' ! k = threads st1 ! k"
        and as': "r = None \<longrightarrow> assigned st' = assigned st1 @ [nat (i + step)..<length (threads st1)]"
        using "1.IH" [of st1] \<open>i < stop\<close> "1.prems" len1 by auto
      have whole: "summarise_loop env model step ntotal (range_up i stop step) st = (r, st')"
        unfolding unfold using ok run by simp
      have nat_add: "nat (i + step) = nat i + nat step"
        using "1.prems" by (simp add: nat_add_distrib)
      have c1: "length (threads st') = ?n" using len' len1 by simp
      have c2: "threads st' ! k = (threads st ! k)\<lparr>summary := summary (threads st' ! k)\<rparr>"
        if "k < ?n" for k
      proof -
        have a: "threads st' ! k = (threads st1 ! k)\<lparr>summary := summary (threads st' ! k)\<rparr>"
          using fr' that len1 by simp
        have "\<exists>s. threads st1 ! k = (threads st ! k)\<lparr>summary := s\<rparr>"
        proof (cases "nat i \<le> k \<and> k < nat i + nat step")
          case True
          then show ?thesis using seg(2) [OF that] by (auto simp: set_summary_def)
        next
          case False
          then have "threads st1 ! k = threads st ! k" using seg(2) [OF that] by auto
          then have "threads st1 ! k = (threads st ! k)\<lparr>summary := summary (threads st ! k)\<rparr>"
            by simp
          then show ?thesis by blast
        qed
        then obtain s where "threads st1 ! k = (threads st ! k)\<lparr>summary := s\<rparr>" by blast
        then have b: "(threads st1 ! k)\<lparr>summary := S\<rparr> = (threads st ! k)\<lparr>summary := S\<rparr>" for S
          by simp
        show ?thesis by (rule trans [OF a b])
      qed
      have c3: "threads st' ! k = threads st ! k" if "k < ?n" "k < nat i" for k
      proof -
        have "threads st' ! k = threads st1 ! k" using pre' that len1 nat_add by simp
        then show ?thesis using seg(2) [OF that(1)] that(2) by simp
      qed
      have c4: "assigned st' = assigned st @ [nat i..<?n]" if "r = None"
      proof -
        have "assigned st' = assigned st @ [nat i..<nat i + length chunk] @ [nat i + nat step..<?n]"
          using as' that as1 len1 nat_add by simp
        moreover have "[nat i..<nat i + length chunk] @ [nat i + nat step..<?n] = [nat i..<?n]"
          unfolding chunk_def
          using upt_split_batch [of "nat i" ?n "nat step" "threads st"] lt "1.prems" by simp
        ultimately show ?thesis by simp
      qed
      show ?thesis using whole c1 c2 c3 c4 by blast
    qed
  qed
qed


lemma model_calls_append [simp]:
  "model_calls (xs @ ys) = model_calls xs + model_calls ys"
  by (simp add: model_calls_def)

lemma progress_values_append [simp]:
  "progress_values (xs @ ys) = progress_values xs @ progress_values ys"
  by (simp add: progress_values_def)

lemma summarise_loop_events:
  assumes good: "\<forall>n chunk. \<exists>kvs. model_reply env n model chunk = Inr (JObject kvs)"
  shows "0 < b \<Longrightarrow> 0 \<le> i \<Longrightarrow> stop = int (length (threads st)) \<Longrightarrow>
    ntotal = length (threads st) \<Longrightarrow> done_count st = min (nat i) ntotal \<Longrightarrow>
    \<exists>st'. summarise_loop env model b ntotal (range_up i stop b) st = (None, st') \<and>
      model_calls (events st') = model_calls (events st) + length (range_up i stop b) \<and>
      progress_values (events st') = progress_values (events st) @
         map (\<lambda>j. of_nat (min (nat j + nat b) ntotal) / of_nat ntotal) (range_up i stop b)"
proof (induction i stop b arbitrary: st rule: range_up.induct)
  case (1 i stop step)
  let ?n = "length (threads st)"
  show ?case
  proof (cases "i < stop")
    case False
    have "range_up i stop step = []"
      using False by (subst range_up.simps) simp
    then show ?thesis by simp
  next
    case True
    have unfold: "range_up i stop step = i # range_up (i + step) stop step"
      using True "1.prems" by (subst range_up.simps) simp
    have lt: "i < int ?n" using True "1.prems" by simp
    define chunk where "chunk = take (nat step) (drop (nat i) (threads st))"
    obtain kvs where reply: "model_reply env (calls st) model chunk = Inr (JObject kvs)"
      using good by blast
    obtain st1 e1 e2 where
      ok: "summarise_batch env model step ntotal i st = (None, st1)"
      and th1: "threads st1 = take (nat i) (threads st) @ map (set_summary kvs) chunk
                   @ drop (nat i + length chunk) (threads st)"
      and dn1: "done_count st1 = done_count st + length chunk"
      and ev1: "events st1 = events st @
        [StatusMarkdown e1, SampleMarkdown e2, ModelCall model (batch_messages env chunk),
         Progress (of_nat (done_count st + length chunk) / of_nat ntotal), Tick, Sleep (1 / 2)]"
      using summarise_batch_object [OF "1.prems"(1,2) lt "1.prems"(4) chunk_def reply] by blast
    note seg = segment_update [OF th1 [unfolded chunk_def]]
    have len1: "length (threads st1) = ?n" by (rule seg(1))
    have nat_add: "nat (i + step) = nat i + nat step"
      using "1.prems" by (simp add: nat_add_distrib)
    have dn: "done_count st + length chunk = min (nat i + nat step) ntotal"
      using "1.prems" lt by (auto simp: chunk_def min_def)
    have dn1': "done_count st1 = min (nat (i + step)) ntotal"
      using dn1 dn nat_add by simp
    obtain st' where
      run: "summarise_loop env model step ntotal (range_up (i + step) stop step) st1 = (None, st')"
      and mc: "model_calls (events st') =
                 model_calls (events st1) + length (range_up (i + step) stop step)"
      and pv: "progress_values (events st') = progress_values (events st1) @
         map (\<lambda>j. of_nat (min (nat j + nat step) ntotal) / of_nat ntotal)
           (range_up (i + step) stop step)"
      using "1.IH" [of st1] True "1.prems" len1 dn1' by auto
    have whole: "summarise_loop env model step ntotal (range_up i stop step) st = (None, st')"
      unfolding unfold using ok run by simp
    have mc1: "model_calls (events st1) = model_calls (events st) + 1"
      unfolding ev1 by (simp add: model_calls_def)
    have pv1: "progress_values (events st1) = progress_values (events st) @
        [of_nat (min (nat i + nat step) ntotal) / of_nat ntotal]"
      unfolding ev1 dn by (simp add: progress_values_def)
    show ?thesis
      using whole mc pv mc1 pv1 unfolding unfold by simp
  qed
qed

lemma range_up_bounds:
  "0 < b \<Longrightarrow> j \<in> set (range_up i stop b) \<Longrightarrow> i \<le> j \<and> j < stop"
proof (induction i stop b rule: range_up.induct)
  case (1 i stop step)
  show ?case
  proof (cases "i < stop")
    case False
    then have "range_up i stop step = []" by (subst range_up.simps) simp
    then show ?thesis using "1.prems" by simp
  next
    case True
    then have "range_up i stop step = i # range_up (i + step) stop step"
      using "1.prems" by (subst range_up.simps) simp
    then have "j = i \<or> j \<in> set (range_up (i + step) stop step)"
      using "1.prems" by simp
    then show ?thesis
    proof
      assume "j = i" then show ?thesis using True by simp
    next
      assume "j \<in> set (range_up (i + step) stop step)"
      then have "i + step \<le> j \<and> j < stop" using "1.IH" True "1.prems" by simp
      then show ?thesis using "1.prems" by simp
    qed
  qed
qed

lemma fraction_sorted:
  "0 < b \<Longrightarrow> 0 \<le> i \<Longrightarrow> stop = int n \<Longrightarrow>
   sorted_wrt (<) (map (\<lambda>j. (of_nat (min (nat j + nat b) n) / of_nat n :: rat)) (range_up i stop b))"
proof (induction i stop b rule: range_up.induct)
  case (1 i stop step)
  show ?case
  proof (cases "i < stop")
    case False
    then have "range_up i stop step = []" by (subst range_up.simps) simp
    then show ?thesis by simp
  next
    case True
    have unfold: "range_up i stop step = i # range_up (i + step) stop step"
      using True "1.prems" by (subst range_up.simps) simp
    have rest: "sorted_wrt (<) (map (\<lambda>j. (of_nat (min (nat j + nat step) n) / of_nat n :: rat))
                  (range_up (i + step) stop step))"
      using "1.IH" True "1.prems" by simp
    have npos: "0 < n" using True "1.prems" by simp
    have first: "(of_nat (min (nat i + nat step) n) / of_nat n :: rat)
                   < of_nat (min (nat j + nat step) n) / of_nat n"
      if "j \<in> set (range_up (i + step) stop step)" for j
    proof -
      have "i + step \<le> j \<and> j < stop" using range_up_bounds [OF "1.prems"(1) that] .
      then have "min (nat i + nat step) n < min (nat j + nat step) n"
        using "1.prems" by (auto simp: min_def)
      then have "(of_nat (min (nat i + nat step) n) :: rat) < of_nat (min (nat j + nat step) n)"
        by (simp only: of_nat_less_iff)
      then show ?thesis using npos by (simp add: divide_strict_right_mono)
    qed
    show ?thesis unfolding unfold using rest first by simp
  qed
qed

lemma fraction_last:
  "0 < b \<Longrightarrow> 0 \<le> i \<Longrightarrow> stop = int n \<Longrightarrow> i < stop \<Longrightarrow>
   last (map (\<lambda>j. (of_nat (min (nat j + nat b) n) / of_nat n :: rat)) (range_up i stop b)) = 1"
proof (induction i stop b rule: range_up.induct)
  case (1 i stop step)
  have unfold: "range_up i stop step = i # range_up (i + step) stop step"
    using "1.prems" by (subst range_up.simps) simp
  have npos: "0 < n" using "1.prems" by simp
  show ?case
  proof (cases "i + step < stop")
    case True
    then have ne: "range_up (i + step) stop step \<noteq> []"
      using "1.prems" by (subst range_up.simps) simp
    have "last (map (\<lambda>j. (of_nat (min (nat j + nat step) n) / of_nat n :: rat))
             (range_up (i + step) stop step)) = 1"
      using "1.IH" True "1.prems" by simp
    then show ?thesis unfolding unfold using ne by simp
  next
    case False
    then have e: "range_up (i + step) stop step = []" by (subst range_up.simps) simp
    have "min (nat i + nat step) n = n" using False "1.prems" by (auto simp: min_def)
    then show ?thesis unfolding unfold e using npos by simp
  qed
qed


lemma summarise_threads_positive:
  assumes "0 < b"
  shows "summarise_threads env ths model b =
     (case summarise_loop env model b (length ths) (range_up 0 (int (length ths)) b)
             \<lparr>threads = ths, done_count = 0, events = [], calls = 0, assigned = []\<rparr> of
        (Some e, st) \<Rightarrow> (Some e, st)
      | (None, st) \<Rightarrow> (None, emit (StatusMarkdown (lit ''**Summarising complete!**'')) st))"
  using assms by (simp add: summarise_threads_def py_range_def Let_def)

lemma summarise_threads_events:
  assumes good: "\<forall>n chunk. \<exists>kvs. model_reply env n model chunk = Inr (JObject kvs)"
    and b: "0 < b"
  shows "\<exists>st. summarise_threads env ths model b = (None, st) \<and>
      model_calls (events st) = length (range_up 0 (int (length ths)) b) \<and>
      progress_values (events st) =
         map (\<lambda>j. of_nat (min (nat j + nat b) (length ths)) / of_nat (length ths))
           (range_up 0 (int (length ths)) b)"
proof -
  define st0 where "st0 = \<lparr>threads = ths, done_count = 0, events = [], calls = 0, assigned = []\<rparr>"
  have f: "threads st0 = ths" "done_count st0 = 0" "events st0 = []"
    by (simp_all add: st0_def)
  have p3: "int (length ths) = int (length (threads st0))" and p4: "length ths = length (threads st0)"
    and p5: "done_count st0 = min (nat 0) (length ths)"
    using f by simp_all
  have z: "(0::int) \<le> 0" by simp
  obtain st' where
    run: "summarise_loop env model b (length ths) (range_up 0 (int (length ths)) b) st0 = (None, st')"
    and mc: "model_calls (events st') = model_calls (events st0) + length (range_up 0 (int (length ths)) b)"
    and pv: "progress_values (events st') = progress_values (events st0) @
         map (\<lambda>j. of_nat (min (nat j + nat b) (length ths)) / of_nat (length ths))
           (range_up 0 (int (length ths)) b)"
    using summarise_loop_events [OF good b z p3 p4 p5] by blast
  have res: "summarise_threads env ths model b =
          (None, emit (StatusMarkdown (lit ''**Summarising complete!**'')) st')"
    using run unfolding summarise_threads_positive [OF b] st0_def by simp
  have e0: "model_calls (events st0) = 0" "progress_values (events st0) = []"
    unfolding f by (simp_all add: model_calls_def progress_values_def)
  have m: "model_calls (events (emit (StatusMarkdown (lit ''**Summarising complete!**'')) st'))
             = model_calls (events st')"
    by (simp add: emit_def model_calls_def)
  have p: "progress_values (events (emit (StatusMarkdown (lit ''**Summarising complete!**'')) st'))
             = progress_values (events st')"
    by (simp add: emit_def progress_values_def)
  show ?thesis
    unfolding res using m p mc pv e0 by simp
qed

text \<open>
  C1. Provided every reply of the model parses as a JSON object: with 12 threads and the
  default batch size 6, \<open>summarise_threads\<close> returns normally after exactly 2 model calls
  and reports the fractions 1/2 and 1 on the progress bar, in this order; and for every
  non-empty thread list and every batch size \<open>b \<ge> 1\<close> it reports one fraction
  \<open>done / total\<close> per model call, the fractions are strictly increasing, and the last one
  is 1.
\<close>

theorem summarise_threads_progress:
  assumes good: "\<forall>n chunk. \<exists>kvs. model_reply env n model chunk = Inr (JObject kvs)"
  shows "(length ths = 12 \<longrightarrow>
            (\<exists>st. summarise_threads env ths model default_batch = (None, st) \<and>
               model_calls (events st) = 2 \<and>
               progress_values (events st) = [1 / 2, 1])) \<and>
         (ths \<noteq> [] \<and> 1 \<le> b \<longrightarrow>
            (\<exists>st. summarise_threads env ths model b = (None, st) \<and>
               sorted_wrt (<) (progress_values (events st)) \<and>
               progress_values (events st) \<noteq> [] \<and>
               last (progress_values (events st)) = 1 \<and>
               length (progress_values (events st)) = model_calls (events st)))"
proof (intro conjI impI)
  assume len: "length ths = 12"
  have r: "range_up 0 12 6 = [0, 6]"
    by (simp add: range_up.simps)
  obtain st where
    "summarise_threads env ths model 6 = (None, st)"
    "model_calls (events st) = length (range_up 0 (int (length ths)) 6)"
    "progress_values (events st) =
         map (\<lambda>j. of_nat (min (nat j + nat 6) (length ths)) / of_nat (length ths))
           (range_up 0 (int (length ths)) 6)"
    using summarise_threads_events [OF good, of 6 ths] by auto
  then show "\<exists>st. summarise_threads env ths model default_batch = (None, st) \<and>
               model_calls (events st) = 2 \<and>
               progress_values (events st) = [1 / 2, 1]"
    using len r by (simp add: default_batch_def)
next
  assume "ths \<noteq> [] \<and> 1 \<le> b"
  then have b: "0 < b" and ne: "0 < int (length ths)" by simp_all
  obtain st where
    run: "summarise_threads env ths model b = (None, st)"
    and mc: "model_calls (events st) = length (range_up 0 (int (length ths)) b)"
    and pv: "progress_values (events st) =
         map (\<lambda>j. of_nat (min (nat j + nat b) (length ths)) / of_nat (length ths))
           (range_up 0 (int (length ths)) b)"
    using summarise_threads_events [OF good b, of ths] by auto
  have nonempty: "range_up 0 (int (length ths)) b \<noteq> []"
    using b ne by (subst range_up.simps) simp
  have "sorted_wrt (<) (progress_values (events st))"
    unfolding pv using fraction_sorted [OF b, of 0 "int (length ths)" "length ths"] by simp
  moreover have "last (progress_values (events st)) = 1"
    unfolding pv using fraction_last [OF b, of 0 "int (length ths)" "length ths"] ne by simp
  moreover have "progress_values (events st) \<noteq> []"
    unfolding pv using nonempty by simp
  moreover have "length (progress_values (events st)) = model_calls (events st)"
    unfolding pv mc by simp
  ultimately show "\<exists>st. summarise_threads env ths model b = (None, st) \<and>
               sorted_wrt (<) (progress_values (events st)) \<and>
               progress_values (events st) \<noteq> [] \<and>
               last (progress_values (events st)) = 1 \<and>
               length (progress_values (events st)) = model_calls (events st)"
    using run by blast
qed

theorem summarise_threads_progress_witness:
  "(\<forall>n chunk. \<exists>kvs. model_reply demo_env n default_model chunk = Inr (JObject kvs)) \<and>
   length (replicate 12 demo_thread) = 12 \<and>
   (\<exists>st. summarise_threads demo_env (replicate 12 demo_thread) default_model default_batch
            = (None, st) \<and>
         model_calls (events st) = 2 \<and> progress_values (events st) = [1 / 2, 1])"
proof -
  have good: "\<forall>n chunk. \<exists>kvs. model_reply demo_env n default_model chunk = Inr (JObject kvs)"
    by (simp add: model_reply_def demo_env_def)
  show ?thesis
    using good summarise_threads_progress [OF good, of "replicate 12 demo_thread" 6]
    by simp
qed

lemma summarise_threads_nonpositive:
  assumes "b < 0"
  shows "summarise_threads env ths model b =
     (None, \<lparr>threads = ths, done_count = 0,
             events = [StatusMarkdown (lit ''**Summarising complete!**'')],
             calls = 0, assigned = []\<rparr>)"
proof -
  have "range_down 0 (int (length ths)) b = []"
    by (subst range_down.simps) simp
  then show ?thesis
    using assms by (simp add: summarise_threads_def py_range_def Let_def emit_def)
qed

text \<open>
  C10. Called with an empty thread list (and a batch size other than 0, the default being
  6), \<open>summarise_threads\<close> issues no model call, reports no fraction, so that
  \<open>done / total\<close> is never evaluated and no ZeroDivisionError arises although
  \<open>total = 0\<close>, and returns normally after setting the completion status.
\<close>

theorem summarise_threads_empty:
  assumes "batch \<noteq> 0"
  shows "summarise_threads env [] model batch =
     (None, \<lparr>threads = [], done_count = 0,
             events = [StatusMarkdown (lit ''**Summarising complete!**'')],
             calls = 0, assigned = []\<rparr>)"
proof (cases "0 < batch")
  case True
  have "range_up 0 0 batch = []"
    by (subst range_up.simps) simp
  then show ?thesis
    using True by (simp add: summarise_threads_def py_range_def Let_def emit_def)
next
  case False
  then have "batch < 0" using assms by simp
  then show ?thesis by (rule summarise_threads_nonpositive)
qed

theorem summarise_threads_empty_witness:
  "default_batch \<noteq> 0 \<and>
   fst (summarise_threads demo_env [] default_model default_batch) = None \<and>
   model_calls (events (snd (summarise_threads demo_env [] default_model default_batch))) = 0 \<and>
   progress_values (events (snd (summarise_threads demo_env [] default_model default_batch))) = []"
proof -
  have h: "default_batch \<noteq> 0" by (simp add: default_batch_def)
  show ?thesis
    using h summarise_threads_empty [OF h, of demo_env default_model]
    by (simp add: model_calls_def progress_values_def)
qed



lemma demo_env_good:
  "\<forall>n chunk. \<exists>kvs. model_reply demo_env n model chunk = Inr (JObject kvs)"
  by (simp add: model_reply_def demo_env_def)


lemma drop_eq_nth:
  assumes "length xs = length ys" "\<forall>k<length ys. p \<le> k \<longrightarrow> xs ! k = ys ! k"
  shows "drop p xs = drop p ys"
  using assms by (intro nth_equalityI) auto

lemma div_in_batch:
  fixes c m k :: nat
  assumes "c * m \<le> k" "k < c * m + m"
  shows "k div m = c"
proof -
  have "0 < m" using assms by (cases m) auto
  obtain r where r: "k = c * m + r" "r < m"
    using assms by (metis add_less_cancel_left le_Suc_ex)
  then show ?thesis by simp
qed

lemma summarise_loop_summaries:
  assumes good: "\<forall>n chunk. \<exists>kvs. model_reply env n model chunk = Inr (JObject kvs)"
  shows "0 < b \<Longrightarrow> 0 \<le> i \<Longrightarrow> stop = int (length ths0) \<Longrightarrow>
    length (threads st) = length ths0 \<Longrightarrow> ntotal = length ths0 \<Longrightarrow> i = int (calls st) * b \<Longrightarrow>
    (\<forall>k<length ths0. nat i \<le> k \<longrightarrow> threads st ! k = ths0 ! k) \<Longrightarrow>
    \<exists>st'. summarise_loop env model b ntotal (range_up i stop b) st = (None, st') \<and>
       (\<forall>k<length ths0. nat i \<le> k \<longrightarrow>
          (\<forall>kvs. model_reply env (k div nat b) model
                   (take (nat b) (drop (k div nat b * nat b) ths0)) = Inr (JObject kvs)
             \<longrightarrow> threads st' ! k = set_summary kvs (ths0 ! k)))"
proof (induction i stop b arbitrary: st rule: range_up.induct)
  case (1 i stop step)
  let ?n = "length ths0"
  show ?case
  proof (cases "i < stop")
    case False
    have "range_up i stop step = []"
      using False by (subst range_up.simps) simp
    moreover have "\<not> (k < ?n \<and> nat i \<le> k)" for k using False "1.prems" by auto
    ultimately show ?thesis by auto
  next
    case True
    have unfold: "range_up i stop step = i # range_up (i + step) stop step"
      using True "1.prems" by (subst range_up.simps) simp
    have lt: "i < int (length (threads st))" using True "1.prems" by simp
    have nt: "ntotal = length (threads st)" using "1.prems" by simp
    define chunk where "chunk = take (nat step) (drop (nat i) (threads st))"
    have chunk0: "chunk = take (nat step) (drop (nat i) ths0)"
      unfolding chunk_def using drop_eq_nth [of "threads st" ths0 "nat i"] "1.prems" by simp
    obtain kvs1 where reply: "model_reply env (calls st) model chunk = Inr (JObject kvs1)"
      using good by blast
    obtain st1 where
      ok: "summarise_batch env model step ntotal i st = (None, st1)"
      and th1: "threads st1 = take (nat i) (threads st) @ map (set_summary kvs1) chunk
                   @ drop (nat i + length chunk) (threads st)"
      and cl1: "calls st1 = Suc (calls st)"
      using summarise_batch_object [OF "1.prems"(1,2) lt nt chunk_def reply] by blast
    note seg = segment_update [OF th1 [unfolded chunk_def]]
    have len1: "length (threads st1) = ?n" using seg(1) "1.prems" by simp
    have nat_add: "nat (i + step) = nat i + nat step"
      using "1.prems" by (simp add: nat_add_distrib)
    have nat_i: "nat i = calls st * nat step"
      using "1.prems" by (simp add: nat_mult_distrib)
    have inv_calls: "i + step = int (calls st1) * step"
      using "1.prems" cl1 by (simp add: algebra_simps)
    have inv_suffix: "\<forall>k<?n. nat (i + step) \<le> k \<longrightarrow> threads st1 ! k = ths0 ! k"
    proof (intro allI impI)
      fix k assume k: "k < ?n" "nat (i + step) \<le> k"
      then have "threads st1 ! k = threads st ! k"
        using seg(2) [of k] "1.prems" nat_add by simp
      then show "threads st1 ! k = ths0 ! k" using k "1.prems" nat_add by simp
    qed
    have i0: "0 \<le> i + step" using "1.prems" by simp
    obtain st' where
      run: "summarise_loop env model step ntotal (range_up (i + step) stop step) st1 = (None, st')"
      and sm: "\<forall>k<?n. nat (i + step) \<le> k \<longrightarrow>
          (\<forall>kvs. model_reply env (k div nat step) model
                   (take (nat step) (drop (k div nat step * nat step) ths0)) = Inr (JObject kvs)
             \<longrightarrow> threads st' ! k = set_summary kvs (ths0 ! k))"
      using "1.IH" [OF _ "1.prems"(1) i0 "1.prems"(3) len1 "1.prems"(5) inv_calls inv_suffix]
        True "1.prems"(1) by blast
    have p3: "stop = int (length (threads st1))" and p4: "ntotal = length (threads st1)"
      using len1 "1.prems" by simp_all
    obtain r2 st2 where
      run2: "summarise_loop env model step ntotal (range_up (i + step) stop step) st1 = (r2, st2)"
      and pre: "\<forall>k<length (threads st1). k < nat (i + step) \<longrightarrow> threads st2 ! k = threads st1 ! k"
      using summarise_loop_frame [OF "1.prems"(1) i0 p3 p4, of env model] by blast
    have st2: "st2 = st'" using run run2 by simp
    have whole: "summarise_loop env model step ntotal (range_up i stop step) st = (None, st')"
      unfolding unfold using ok run by simp
    have main: "threads st' ! k = set_summary kvs (ths0 ! k)"
      if k: "k < ?n" "nat i \<le> k"
        and rk: "model_reply env (k div nat step) model
                   (take (nat step) (drop (k div nat step * nat step) ths0)) = Inr (JObject kvs)"
      for k kvs
    proof (cases "nat (i + step) \<le> k")
      case True
      then show ?thesis using sm k rk by blast
    next
      case False
      then have inb: "k < nat i + nat step" using nat_add by simp
      have d: "k div nat step = calls st"
        using div_in_batch [of "calls st" "nat step" k] k inb nat_i by simp
      have "Inr (JObject kvs) = model_reply env (calls st) model chunk"
        using rk unfolding d chunk0 nat_i by simp
      then have same: "kvs = kvs1" using reply by simp
      have "threads st' ! k = threads st1 ! k"
        using pre st2 k False len1 by simp
      also have "\<dots> = set_summary kvs1 (threads st ! k)"
        using seg(2) [of k] k inb "1.prems" by simp
      also have "\<dots> = set_summary kvs (ths0 ! k)"
        using same k "1.prems" by simp
      finally show ?thesis .
    qed
    show ?thesis using whole main by blast
  qed
qed


text \<open>
  C3. Provided every reply of the model parses as a JSON object, \<open>summarise_threads\<close>
  returns normally whether or not the replies hold the threads' ids, and a thread ends
  the run with the value stored under its id in the reply of its own batch (the batch
  number \<open>k div b\<close> of the thread at position \<open>k\<close>), or with \<open>{}\<close> when that reply has
  no such key.
\<close>

theorem summarise_threads_missing_id:
  assumes good: "\<forall>n chunk. \<exists>kvs. model_reply env n model chunk = Inr (JObject kvs)"
    and b: "1 \<le> b"
    and k: "k < length ths"
    and reply: "model_reply env (k div nat b) model
                  (py_slice ths (int (k div nat b) * b) (int (k div nat b) * b + b))
                = Inr (JObject kvs)"
  shows "\<exists>st. summarise_threads env ths model b = (None, st) \<and>
     (map_of kvs (id_field (ths ! k)) = None \<longrightarrow> summary (threads st ! k) = Some (JObject [])) \<and>
     (\<forall>v. map_of kvs (id_field (ths ! k)) = Some v \<longrightarrow> summary (threads st ! k) = Some v)"
proof -
  have pos: "0 < b" using b by simp
  define st0 where "st0 = \<lparr>threads = ths, done_count = 0, events = [], calls = 0, assigned = []\<rparr>"
  have f: "threads st0 = ths" "calls st0 = 0" by (simp_all add: st0_def)
  have z: "(0::int) \<le> 0" by simp
  have p4: "length (threads st0) = length ths" using f by simp
  have p6: "(0::int) = int (calls st0) * b" using f by simp
  have p7: "\<forall>j<length ths. nat 0 \<le> j \<longrightarrow> threads st0 ! j = ths ! j" using f by simp
  obtain st' where
    run: "summarise_loop env model b (length ths) (range_up 0 (int (length ths)) b) st0 = (None, st')"
    and sm: "\<forall>j<length ths. nat 0 \<le> j \<longrightarrow>
          (\<forall>kvs. model_reply env (j div nat b) model
                   (take (nat b) (drop (j div nat b * nat b) ths)) = Inr (JObject kvs)
             \<longrightarrow> threads st' ! j = set_summary kvs (ths ! j))"
    using summarise_loop_summaries [OF good pos z refl p4 refl p6 p7] by blast
  have res: "summarise_threads env ths model b =
          (None, emit (StatusMarkdown (lit ''**Summarising complete!**'')) st')"
    using run unfolding summarise_threads_positive [OF pos] st0_def by simp
  have start: "0 \<le> int (k div nat b) * b" using pos by simp
  have "py_slice ths (int (k div nat b) * b) (int (k div nat b) * b + b)
          = take (nat b) (drop (nat (int (k div nat b) * b)) ths)"
    by (rule py_slice_step [OF start pos])
  moreover have "nat (int (k div nat b) * b) = k div nat b * nat b"
    using pos by (simp add: nat_mult_distrib)
  ultimately have "model_reply env (k div nat b) model
                   (take (nat b) (drop (k div nat b * nat b) ths)) = Inr (JObject kvs)"
    using reply by simp
  then have "threads st' ! k = set_summary kvs (ths ! k)"
    using sm k by simp
  then have "summary (threads (emit (StatusMarkdown (lit ''**Summarising complete!**'')) st') ! k)
               = Some (dict_get kvs (id_field (ths ! k)) (JObject []))"
    by (simp add: emit_def set_summary_def)
  then show ?thesis
    unfolding res by (auto simp: dict_get_def)
qed

theorem summarise_threads_missing_id_witness:
  "(\<forall>n chunk. \<exists>kvs. model_reply demo_env n default_model chunk = Inr (JObject kvs)) \<and>
   1 \<le> default_batch \<and> 0 < length [demo_thread] \<and>
   model_reply demo_env (0 div nat default_batch) default_model
      (py_slice [demo_thread] (int (0 div nat default_batch) * default_batch)
         (int (0 div nat default_batch) * default_batch + default_batch)) = Inr (JObject []) \<and>
   map_of ([] :: (pystr \<times> json) list) (id_field ([demo_thread] ! 0)) = None \<and>
   (\<exists>st. summarise_threads demo_env [demo_thread] default_model default_batch = (None, st) \<and>
      summary (threads st ! 0) = Some (JObject []))"
proof -
  have b: "1 \<le> default_batch" by (simp add: default_batch_def)
  have k: "0 < length [demo_thread]" by simp
  have reply: "model_reply demo_env (0 div nat default_batch) default_model
      (py_slice [demo_thread] (int (0 div nat default_batch) * default_batch)
         (int (0 div nat default_batch) * default_batch + default_batch)) = Inr (JObject [])"
    by (simp add: model_reply_def demo_env_def)
  show ?thesis
    using summarise_threads_missing_id [OF demo_env_good b k reply] demo_env_good b reply
    by simp
qed

lemma collect_all_ok:
  "\<forall>x\<in>set xs. \<exists>y. f x = Inr y \<Longrightarrow>
   \<exists>ys. collect f xs = Inr ys \<and> length ys = length xs \<and> (\<forall>i<length xs. f (xs ! i) = Inr (ys ! i))"
proof (induction xs)
  case Nil
  then show ?case by simp
next
  case (Cons x xs)
  then obtain y where y: "f x = Inr y" by auto
  obtain ys where ys: "collect f xs = Inr ys" "length ys = length xs"
      "\<forall>i<length xs. f (xs ! i) = Inr (ys ! i)"
    using Cons by auto
  have "\<forall>i<length (x # xs). f ((x # xs) ! i) = Inr ((y # ys) ! i)"
    using y ys(3) by (auto simp: nth_Cons split: nat.splits)
  then show ?case using y ys by auto
qed

text \<open>
  C2. For every thread list in which each thread carries a summary that is a mapping,
  \<open>generate_report\<close> joins one line per thread (title, gist, URL citation) with blank
  lines; when the joined string is longer than 15000 characters the corpus is exactly its
  first 15000 characters, otherwise it is the joined string itself; and this corpus is what
  the assistant message of the synthesis call carries.
\<close>

theorem build_corpus_truncates:
  assumes enriched: "\<forall>t\<in>set ths. \<exists>kvs. summary t = Some (JObject kvs)"
  shows "\<exists>entries corpus.
     collect (corpus_entry env) ths = Inr entries \<and> length entries = length ths \<and>
     (\<forall>i<length ths. \<exists>kvs. summary (ths ! i) = Some (JObject kvs) \<and>
                         entries ! i = corpus_line env (ths ! i) kvs) \<and>
     build_corpus env ths = Inr corpus \<and>
     (15000 < length (py_join [10, 10] entries) \<longrightarrow>
        corpus = take 15000 (py_join [10, 10] entries) \<and> length corpus = 15000) \<and>
     (length (py_join [10, 10] entries) \<le> 15000 \<longrightarrow> corpus = py_join [10, 10] entries) \<and>
     (\<exists>rest. snd (generate_report env ncalls genre ths qs) =
         ModelCall (lit ''o3'') (report_messages env genre (length ths) corpus qs) # rest)"
proof -
  have "\<forall>t\<in>set ths. \<exists>y. corpus_entry env t = Inr y"
    using enriched by (auto simp: corpus_entry_def)
  then obtain entries where
    c: "collect (corpus_entry env) ths = Inr entries" and l: "length entries = length ths"
    and n: "\<forall>i<length ths. corpus_entry env (ths ! i) = Inr (entries ! i)"
    using collect_all_ok [of ths "corpus_entry env"] by blast
  define corpus where "corpus = take 15000 (py_join [10, 10] entries)"
  have lines: "\<exists>kvs. summary (ths ! i) = Some (JObject kvs) \<and>
                  entries ! i = corpus_line env (ths ! i) kvs" if "i < length ths" for i
  proof -
    have "ths ! i \<in> set ths" using that by simp
    then obtain kvs where k: "summary (ths ! i) = Some (JObject kvs)"
      using enriched by blast
    then have "corpus_entry env (ths ! i) = Inr (corpus_line env (ths ! i) kvs)"
      by (simp add: corpus_entry_def)
    then show ?thesis using n that k by auto
  qed
  have b: "build_corpus env ths = Inr corpus"
    using c by (simp add: build_corpus_def corpus_def corpus_limit_def)
  have g: "\<exists>rest. snd (generate_report env ncalls genre ths qs) =
         ModelCall (lit ''o3'') (report_messages env genre (length ths) corpus qs) # rest"
    using b by (simp add: generate_report_def Let_def split: sum.splits)
  have long: "corpus = take 15000 (py_join [10, 10] entries) \<and> length corpus = 15000"
    if "15000 < length (py_join [10, 10] entries)"
    using that by (simp add: corpus_def)
  have short: "corpus = py_join [10, 10] entries" if "length (py_join [10, 10] entries) \<le> 15000"
    using that by (simp add: corpus_def)
  show ?thesis using c l lines b g long short by blast
qed


theorem build_corpus_truncates_witness:
  "(\<exists>kvs. summary summarised_thread = Some (JObject kvs)) \<and>
   (\<exists>kvs. summary long_thread = Some (JObject kvs)) \<and>
   length (py_join [10, 10] [corpus_line demo_env summarised_thread [(lit ''gist'', JString (lit ''A gist''))]])
      \<le> 15000 \<and>
   build_corpus demo_env [summarised_thread] =
      Inr (lit ''A title '' @ [8211] @ lit '' A gist [URL](https://example.org/t1)'') \<and>
   15000 < length (py_join [10, 10] [corpus_line demo_env long_thread []]) \<and>
   (\<exists>corpus. build_corpus demo_env [long_thread] = Inr corpus \<and> length corpus = 15000 \<and>
       corpus = take 15000 (title long_thread))"
proof -
  have h1: "\<forall>t\<in>set [summarised_thread]. \<exists>kvs. summary t = Some (JObject kvs)"
    by (simp add: summarised_thread_def)
  have h2: "\<forall>t\<in>set [long_thread]. \<exists>kvs. summary t = Some (JObject kvs)"
    by (simp add: long_thread_def)
  have e1: "collect (corpus_entry demo_env) [summarised_thread] =
      Inr [corpus_line demo_env summarised_thread [(lit ''gist'', JString (lit ''A gist''))]]"
    by (simp add: corpus_entry_def summarised_thread_def)
  have e2: "collect (corpus_entry demo_env) [long_thread] = Inr [corpus_line demo_env long_thread []]"
    by (simp add: corpus_entry_def long_thread_def)
  have v1: "py_join [10, 10] [corpus_line demo_env summarised_thread [(lit ''gist'', JString (lit ''A gist''))]]
      = lit ''A title '' @ [8211] @ lit '' A gist [URL](https://example.org/t1)''"
    by (simp add: corpus_line_def summarised_thread_def demo_thread_def fstring_def dict_get_def lit_def)
  have l1: "length (py_join [10, 10] [corpus_line demo_env summarised_thread [(lit ''gist'', JString (lit ''A gist''))]])
      \<le> 15000"
    unfolding v1 by (simp add: lit_def)
  have l2: "15000 < length (py_join [10, 10] [corpus_line demo_env long_thread []])"
    by (simp add: corpus_line_def long_thread_def)
  have t2: "take 15000 (py_join [10, 10] [corpus_line demo_env long_thread []])
      = take 15000 (title long_thread)"
    by (simp add: corpus_line_def long_thread_def)
  have s: "build_corpus demo_env [summarised_thread] =
      Inr (lit ''A title '' @ [8211] @ lit '' A gist [URL](https://example.org/t1)'')"
    using build_corpus_truncates [OF h1, of demo_env 0 "[]" "[]"] e1 l1 v1 by auto
  have l: "\<exists>corpus. build_corpus demo_env [long_thread] = Inr corpus \<and> length corpus = 15000 \<and>
       corpus = take 15000 (title long_thread)"
    using build_corpus_truncates [OF h2, of demo_env 0 "[]" "[]"] e2 l2 t2 by auto
  have h1': "\<exists>kvs. summary summarised_thread = Some (JObject kvs)" using h1 by simp
  have h2': "\<exists>kvs. summary long_thread = Some (JObject kvs)" using h2 by simp
  show ?thesis using h1' h2' l1 s l2 l by blast
qed

text \<open>
  C6. The text export hands \<open>st.download_button\<close> the report string itself, with no
  transformation: what is read back from the buffer is the report, for every report, and
  the text download carrying it is the first element the export stage shows, whatever the
  environment, so that two exports of one report offer identical content.
\<close>

theorem text_export_verbatim:
  "txt_buf report_md = report_md \<and>
   (\<exists>rest. snd (export_stage env report_md) =
      DownloadButton ([128196] @ lit '' Download as .txt'') (StrData report_md)
        (lit ''reddit_research_report.txt'') (lit ''text/plain'') # rest)"
proof -
  have "\<exists>rest. snd (export_stage env report_md) = text_download report_md # rest"
    by (simp add: export_stage_def Let_def split: prod.splits option.splits sum.splits)
  then show ?thesis by (simp add: text_download_def txt_buf_def)
qed

text \<open>
  C8. The export stage never runs to completion. Where the FPDF calls of the first
  export all succeed, the text and the first PDF download are shown and the run then
  ends in NameError at line 259: \<open>build_pdf\<close> is bound in the body of the class
  statement, not in the module, so the call never reaches the function.
\<close>

theorem export_stage_name_error:
  "export_stage demo_env (lit ''Hello'') =
     (Raised NameError,
      [text_download (lit ''Hello''),
       DownloadButton ([128216] @ lit '' Download as .pdf'') (BytesData [37, 80, 68, 70])
         (lit ''reddit_research_report.pdf'') (lit ''application/pdf'')]) \<and>
   (\<forall>env report_md. fst (export_stage env report_md) \<noteq> Completed)"
proof -
  have nb: "''build_pdf'' \<notin> set module_names"
    by (simp add: module_names_def)
  have a: "export_stage demo_env (lit ''Hello'') =
     (Raised NameError,
      [text_download (lit ''Hello''),
       DownloadButton ([128216] @ lit '' Download as .pdf'') (BytesData [37, 80, 68, 70])
         (lit ''reddit_research_report.pdf'') (lit ''application/pdf'')])"
    using nb
    by (simp add: export_stage_def first_pdf_def chapter_body_def pdf_call_def demo_env_def Let_def)
  have b: "fst (export_stage env report_md) \<noteq> Completed" for env report_md
    using nb by (simp add: export_stage_def Let_def split: prod.splits option.splits)
  show ?thesis using a b by blast
qed

lemma fetch_loop_posts:
  "fetch_loop (map Inr posts) acc =
     (Inr (acc @ map thread_of_post posts), replicate (length posts) Tick)"
  by (induction posts arbitrary: acc) simp_all

lemma summarise_threads_objects:
  assumes good: "\<forall>n chunk. \<exists>kvs. model_reply env n model chunk = Inr (JObject kvs) \<and>
                    (\<forall>k v. (k, v) \<in> set kvs \<longrightarrow> (\<exists>ob. v = JObject ob))"
    and pos: "0 < b"
  shows "\<exists>st. summarise_threads env ths model b = (None, st) \<and>
     length (threads st) = length ths \<and>
     (\<forall>t\<in>set (threads st). \<exists>ob. summary t = Some (JObject ob))"
proof -
  have good': "\<forall>n chunk. \<exists>kvs. model_reply env n model chunk = Inr (JObject kvs)"
    using good by blast
  define st0 where "st0 = \<lparr>threads = ths, done_count = 0, events = [], calls = 0, assigned = []\<rparr>"
  have f: "threads st0 = ths" "calls st0 = 0" by (simp_all add: st0_def)
  have z: "(0::int) \<le> 0" by simp
  have p4: "length (threads st0) = length ths" using f by simp
  have p6: "(0::int) = int (calls st0) * b" using f by simp
  have p7: "\<forall>j<length ths. nat 0 \<le> j \<longrightarrow> threads st0 ! j = ths ! j" using f by simp
  obtain st' where
    run: "summarise_loop env model b (length ths) (range_up 0 (int (length ths)) b) st0 = (None, st')"
    and sm: "\<forall>j<length ths. nat 0 \<le> j \<longrightarrow>
          (\<forall>kvs. model_reply env (j div nat b) model
                   (take (nat b) (drop (j div nat b * nat b) ths)) = Inr (JObject kvs)
             \<longrightarrow> threads st' ! j = set_summary kvs (ths ! j))"
    using summarise_loop_summaries [OF good' pos z refl p4 refl p6 p7] by blast
  have p3: "int (length ths) = int (length (threads st0))"
    and p4': "length ths = length (threads st0)" using f by simp_all
  obtain r2 st2 where
    run2: "summarise_loop env model b (length ths) (range_up 0 (int (length ths)) b) st0 = (r2, st2)"
    and len2: "length (threads st2) = length (threads st0)"
    using summarise_loop_frame [OF pos z p3 p4', of env model] by blast
  have len: "length (threads st') = length ths"
    using run run2 len2 f by simp
  have obj: "\<exists>ob. summary (threads st' ! j) = Some (JObject ob)" if j: "j < length ths" for j
  proof -
    obtain kvs where
      r: "model_reply env (j div nat b) model (take (nat b) (drop (j div nat b * nat b) ths))
            = Inr (JObject kvs)"
      and vals: "\<forall>k v. (k, v) \<in> set kvs \<longrightarrow> (\<exists>ob. v = JObject ob)"
      using good by blast
    have s: "summary (threads st' ! j) = Some (dict_get kvs (id_field (ths ! j)) (JObject []))"
      using sm j r by (simp add: set_summary_def)
    show ?thesis
    proof (cases "map_of kvs (id_field (ths ! j))")
      case None
      then show ?thesis using s by (simp add: dict_get_def)
    next
      case (Some v)
      then have "(id_field (ths ! j), v) \<in> set kvs" by (rule map_of_SomeD)
      then obtain ob where "v = JObject ob" using vals by blast
      then show ?thesis using s Some by (simp add: dict_get_def)
    qed
  qed
  have all: "\<forall>t\<in>set (threads st'). \<exists>ob. summary t = Some (JObject ob)"
  proof
    fix t assume "t \<in> set (threads st')"
    then obtain j where "j < length (threads st')" "t = threads st' ! j"
      by (auto simp: in_set_conv_nth)
    then show "\<exists>ob. summary t = Some (JObject ob)" using obj len by simp
  qed
  have res: "summarise_threads env ths model b =
          (None, emit (StatusMarkdown (lit ''**Summarising complete!**'')) st')"
    using run unfolding summarise_threads_positive [OF pos] st0_def by simp
  show ?thesis unfolding res using len all by (simp add: emit_def)
qed

lemma gist_rows_ok:
  assumes "\<forall>t\<in>set ths. \<exists>ob. summary t = Some (JObject ob)"
  shows "\<exists>rows. collect gist_row ths = Inr rows"
proof -
  have "\<forall>t\<in>set ths. \<exists>y. gist_row t = Inr y"
    using assms by (auto simp: gist_row_def)
  then show ?thesis using collect_all_ok [of ths gist_row] by blast
qed

lemma build_corpus_ok:
  assumes "\<forall>t\<in>set ths. \<exists>ob. summary t = Some (JObject ob)"
  shows "\<exists>corpus. build_corpus env ths = Inr corpus"
proof -
  have "\<forall>t\<in>set ths. \<exists>y. corpus_entry env t = Inr y"
    using assms by (auto simp: corpus_entry_def)
  then obtain es where "collect (corpus_entry env) ths = Inr es"
    using collect_all_ok [of ths "corpus_entry env"] by blast
  then show ?thesis by (simp add: build_corpus_def)
qed

lemma pipeline_reaches_synthesis:
  assumes "fetch_threads env sub n = (Inr ths, evs)"
    and "summarise_threads env ths default_model default_batch = (None, st)"
    and "collect gist_row (threads st) = Inr rows"
    and "build_corpus env (threads st) = Inr corpus"
  shows "ModelCall (lit ''o3'') (report_messages env genre (length (threads st)) corpus qs)
           \<in> set (snd (pipeline env sub n genre qs))"
  using assms
  by (simp add: pipeline_def generate_report_def Let_def split: sum.splits prod.splits)


lemma attach_summaries_events:
  "attach_summaries s pos chunk st = (r, st') \<Longrightarrow> events st' = events st"
proof (induction chunk arbitrary: pos st)
  case Nil
  then show ?case by simp
next
  case (Cons t ts)
  show ?case
  proof (cases "\<exists>kvs. s = JObject kvs")
    case True
    then obtain kvs where k: "s = JObject kvs" by blast
    have "attach_summaries s (Suc pos) ts
            (st\<lparr>threads := (threads st)[pos := set_summary kvs t],
                assigned := assigned st @ [pos]\<rparr>) = (r, st')"
      using Cons.prems k by simp
    then have "events st' = events (st\<lparr>threads := (threads st)[pos := set_summary kvs t],
                assigned := assigned st @ [pos]\<rparr>)"
      by (rule Cons.IH)
    then show ?thesis by simp
  next
    case False
    then have "attach_summaries s pos (t # ts) st = (Some AttributeError, st)"
      by (cases s) auto
    then show ?thesis using Cons.prems by simp
  qed
qed

lemma announce_events:
  "announce env first st = (r, st') \<Longrightarrow> ModelCall m msgs \<in> set (events st') \<Longrightarrow>
   ModelCall m msgs \<in> set (events st)"
  by (auto simp: announce_def emit_def Let_def split: if_splits)

lemma report_progress_events:
  "report_progress n k st = (r, st') \<Longrightarrow> ModelCall m msgs \<in> set (events st') \<Longrightarrow>
   ModelCall m msgs \<in> set (events st)"
  by (auto simp: report_progress_def emit_def Let_def split: if_splits)

lemma summarise_batch_model_calls:
  assumes run: "summarise_batch env model b n i st = (r, st')"
    and mem: "ModelCall m msgs \<in> set (events st')"
  shows "ModelCall m msgs \<in> set (events st) \<or> length msgs = 2"
proof (cases "py_slice (threads st) i (i + b)")
  case Nil
  then show ?thesis using run mem by (simp add: summarise_batch_def)
next
  case (Cons first rest)
  obtain ra st2 where an: "announce env first st = (ra, st2)" by (cases "announce env first st")
  note a2 = announce_events [OF an]
  show ?thesis
  proof (cases ra)
    case (Some e)
    then show ?thesis using run mem an Cons a2 by (simp add: summarise_batch_def)
  next
    case None
    define chunk where "chunk = first # rest"
    define st3 where "st3 = (emit (ModelCall model (batch_messages env chunk)) st2)
                               \<lparr>calls := Suc (calls st2)\<rparr>"
    have ev3: "events st3 = events st2 @ [ModelCall model (batch_messages env chunk)]"
      by (simp add: st3_def emit_def)
    have in3: "ModelCall m msgs \<in> set (events st3) \<Longrightarrow>
                 ModelCall m msgs \<in> set (events st) \<or> length msgs = 2"
      using a2 unfolding ev3 by (auto simp: batch_messages_def)
    show ?thesis
    proof (cases "model_reply env (calls st2) model chunk")
      case (Inl e)
      then have "st' = st3"
        using run an None Cons by (simp add: summarise_batch_def chunk_def st3_def)
      then show ?thesis using in3 mem by simp
    next
      case (Inr summaries)
      obtain r4 st4 where at: "attach_summaries summaries
          (slice_index i (length (threads st3))) chunk st3 = (r4, st4)"
        by (cases "attach_summaries summaries (slice_index i (length (threads st3))) chunk st3")
      have ev4: "events st4 = events st3" using attach_summaries_events [OF at] .
      show ?thesis
      proof (cases r4)
        case (Some e)
        then have "st' = st4"
          using run an None Cons Inr at
          by (simp add: summarise_batch_def chunk_def st3_def del: attach_summaries.simps)
        then show ?thesis using in3 mem ev4 by simp
      next
        case None4: None
        have "report_progress n (length chunk) st4 = (r, st')"
          using run an None Cons Inr at None4
          by (simp add: summarise_batch_def chunk_def st3_def del: attach_summaries.simps)
        then have "ModelCall m msgs \<in> set (events st4)"
          using report_progress_events mem by blast
        then show ?thesis using in3 ev4 by simp
      qed
    qed
  qed
qed

lemma summarise_loop_model_calls:
  "summarise_loop env model b n is st = (r, st') \<Longrightarrow> ModelCall m msgs \<in> set (events st') \<Longrightarrow>
   ModelCall m msgs \<in> set (events st) \<or> length msgs = 2"
proof (induction "is" arbitrary: st)
  case Nil
  then show ?case by simp
next
  case (Cons i "is")
  obtain r1 st1 where b1: "summarise_batch env model b n i st = (r1, st1)"
    by (cases "summarise_batch env model b n i st")
  show ?case
  proof (cases r1)
    case (Some e)
    then have "st' = st1" using Cons.prems(1) b1 by simp
    then show ?thesis using summarise_batch_model_calls [OF b1] Cons.prems(2) by simp
  next
    case None
    then have "summarise_loop env model b n is st1 = (r, st')"
      using Cons.prems(1) b1 by simp
    then have "ModelCall m msgs \<in> set (events st1) \<or> length msgs = 2"
      using Cons.IH Cons.prems(2) by blast
    then show ?thesis using summarise_batch_model_calls [OF b1] by blast
  qed
qed

lemma summarise_threads_model_calls:
  assumes "summarise_threads env ths model b = (r, st)"
    and "ModelCall m msgs \<in> set (events st)"
  shows "length msgs = 2"
proof (cases "py_range 0 (int (length ths)) b")
  case (Inl e)
  then show ?thesis using assms by (auto simp: summarise_threads_def Let_def)
next
  case (Inr "is")
  define st0 where "st0 = \<lparr>threads = ths, done_count = 0, events = [], calls = 0, assigned = []\<rparr>"
  obtain r1 st1 where l: "summarise_loop env model b (length ths) is st0 = (r1, st1)"
    by (cases "summarise_loop env model b (length ths) is st0")
  have "events st = events st1 \<or>
        events st = events st1 @ [StatusMarkdown (lit ''**Summarising complete!**'')]"
    using assms(1) Inr l
    by (auto simp: summarise_threads_def Let_def st0_def emit_def split: option.splits)
  then have "ModelCall m msgs \<in> set (events st1)" using assms(2) by auto
  then have "ModelCall m msgs \<in> set (events st0) \<or> length msgs = 2"
    using summarise_loop_model_calls [OF l] by blast
  then show ?thesis by (simp add: st0_def)
qed

lemma fetch_loop_events:
  "fetch_loop ps acc = (r, evs) \<Longrightarrow> e \<in> set evs \<Longrightarrow> e = Tick"
proof (induction ps acc arbitrary: r evs rule: fetch_loop.induct)
  case (1 acc)
  then show ?case by simp
next
  case (2 e' ps acc)
  then show ?case by simp
next
  case (3 p ps acc)
  obtain r1 evs1 where f: "fetch_loop ps (acc @ [thread_of_post p]) = (r1, evs1)"
    by (cases "fetch_loop ps (acc @ [thread_of_post p])")
  then have "evs = Tick # evs1" using "3.prems"(1) by simp
  then show ?case using "3.IH" [OF f] "3.prems"(2) by auto
qed

lemma export_stage_events:
  "export_stage env report_md = (r, evs) \<Longrightarrow> ModelCall m msgs \<notin> set evs"
  by (auto simp: export_stage_def text_download_def Let_def
      split: prod.splits option.splits sum.splits if_splits)

lemma generate_report_events:
  "generate_report env n genre ths qs = (r, evs) \<Longrightarrow> ModelCall m msgs \<in> set evs \<Longrightarrow>
   last msgs = (lit ''user'', q_block qs)"
  by (auto simp: generate_report_def report_messages_def Let_def split: sum.splits)


lemma pipeline_model_calls:
  assumes mem: "ModelCall m msgs \<in> set (snd (pipeline env sub n genre qs))"
  shows "length msgs = 2 \<or> last msgs = (lit ''user'', q_block qs)"
proof -
  obtain rf evf where f: "fetch_threads env sub n = (rf, evf)"
    by (cases "fetch_threads env sub n")
  have nf: "ModelCall m msgs \<notin> set evf"
    using fetch_loop_events [of "reddit_new env sub n" "[]" rf evf "ModelCall m msgs"] f
    by (auto simp: fetch_threads_def)
  show ?thesis
  proof (cases rf)
    case (Inl e)
    then show ?thesis using mem f nf by (simp add: pipeline_def)
  next
    case (Inr ths)
    obtain rs st where s: "summarise_threads env ths default_model default_batch = (rs, st)"
      by (cases "summarise_threads env ths default_model default_batch")
    note two = summarise_threads_model_calls [OF s]
    show ?thesis
    proof (cases rs)
      case (Some e)
      then show ?thesis using mem f Inr s nf two by (auto simp: pipeline_def)
    next
      case None
      show ?thesis
      proof (cases "collect gist_row (threads st)")
        case (Inl e)
        then show ?thesis using mem f Inr s None nf two by (auto simp: pipeline_def)
      next
        case rows: (Inr rows)
        obtain rg evg where g: "generate_report env (calls st) genre (threads st) qs = (rg, evg)"
          by (cases "generate_report env (calls st) genre (threads st) qs")
        note user = generate_report_events [OF g]
        show ?thesis
        proof (cases rg)
          case (Inl e)
          then show ?thesis
            using mem f Inr s None rows g nf two user by (auto simp: pipeline_def)
        next
          case rep: (Inr report_md)
          obtain rx evx where x: "export_stage env report_md = (rx, evx)"
            by (cases "export_stage env report_md")
          note nx = export_stage_events [OF x]
          show ?thesis
            using mem f Inr s None rows g rep x nf two user nx by (auto simp: pipeline_def)
        qed
      qed
    qed
  qed
qed


lemma run_reaches_synthesis:
  assumes posts: "reddit_new env sub n = map Inr posts"
    and good: "\<forall>n chunk. \<exists>kvs. model_reply env n default_model chunk = Inr (JObject kvs) \<and>
                    (\<forall>k v. (k, v) \<in> set kvs \<longrightarrow> (\<exists>ob. v = JObject ob))"
  shows "\<exists>corpus. ModelCall (lit ''o3'') (report_messages env genre (length posts) corpus qs)
           \<in> set (snd (pipeline env sub n genre qs))"
proof -
  have f: "fetch_threads env sub n =
             (Inr (map thread_of_post posts), replicate (length posts) Tick)"
    using posts fetch_loop_posts [of posts "[]"] by (simp add: fetch_threads_def)
  have b: "0 < default_batch" by (simp add: default_batch_def)
  obtain st where
    s: "summarise_threads env (map thread_of_post posts) default_model default_batch = (None, st)"
    and len: "length (threads st) = length (map thread_of_post posts)"
    and obj: "\<forall>t\<in>set (threads st). \<exists>ob. summary t = Some (JObject ob)"
    using summarise_threads_objects [OF good b] by blast
  obtain rows where r: "collect gist_row (threads st) = Inr rows"
    using gist_rows_ok [OF obj] by blast
  obtain corpus where c: "build_corpus env (threads st) = Inr corpus"
    using build_corpus_ok [OF obj] by blast
  have "ModelCall (lit ''o3'') (report_messages env genre (length (threads st)) corpus qs)
           \<in> set (snd (pipeline env sub n genre qs))"
    by (rule pipeline_reaches_synthesis [OF f s r c])
  then show ?thesis using len by auto
qed

text \<open>
  C4. When no line of the questions text is left after splitting it into lines and
  discarding the blank ones, the run stops at a guard: the only thing it does is to show
  one error message, and no stage of the pipeline runs. When six or more non-blank lines
  are supplied, the questions are exactly the first five of them (stripped), and these
  five are what the run hands to the pipeline. In every such run, a model call other than
  the two-message calls of the summariser carries these five as its user message; and when
  the forum yields its posts and every reply of the model maps ids to mappings, the run
  does issue the synthesis call, with these five as its user message.
\<close>

theorem questions_guard_and_cap:
  "(nonblank_lines qs_text = [] \<longrightarrow>
      run_research env subreddit_text n_posts genre_input qs_text =
        (Stopped,
         [ErrorBox (if strip subreddit_text = [] then lit ''Please specify a subreddit.''
                    else lit ''Enter at least one research question.'')])) \<and>
   (6 \<le> length (nonblank_lines qs_text) \<longrightarrow>
      questions qs_text = take 5 (nonblank_lines qs_text) \<and>
      length (questions qs_text) = 5 \<and>
      (strip subreddit_text \<noteq> [] \<longrightarrow>
         run_research env subreddit_text n_posts genre_input qs_text =
           pipeline env (strip subreddit_text) n_posts genre_input (take 5 (nonblank_lines qs_text))) \<and>
      (\<forall>m msgs.
         ModelCall m msgs \<in> set (snd (run_research env subreddit_text n_posts genre_input qs_text))
         \<longrightarrow> length msgs = 2 \<or>
             last msgs = (lit ''user'', q_block (take 5 (nonblank_lines qs_text)))) \<and>
      (strip subreddit_text \<noteq> [] \<and>
       reddit_new env (strip subreddit_text) n_posts = map Inr posts \<and>
       (\<forall>n chunk. \<exists>kvs. model_reply env n default_model chunk = Inr (JObject kvs) \<and>
                      (\<forall>k v. (k, v) \<in> set kvs \<longrightarrow> (\<exists>ob. v = JObject ob)))
       \<longrightarrow> (\<exists>corpus.
              ModelCall (lit ''o3'')
                (report_messages env genre_input (length posts) corpus
                   (take 5 (nonblank_lines qs_text)))
              \<in> set (snd (run_research env subreddit_text n_posts genre_input qs_text)))))"
proof (intro conjI impI)
  assume "nonblank_lines qs_text = []"
  then show "run_research env subreddit_text n_posts genre_input qs_text =
        (Stopped,
         [ErrorBox (if strip subreddit_text = [] then lit ''Please specify a subreddit.''
                    else lit ''Enter at least one research question.'')])"
    by (simp add: run_research_def questions_def Let_def)
next
  assume six: "6 \<le> length (nonblank_lines qs_text)"
  show q: "questions qs_text = take 5 (nonblank_lines qs_text)"
    by (simp add: questions_def)
  show "length (questions qs_text) = 5"
    using six by (simp add: questions_def)
  have ne: "questions qs_text \<noteq> []"
    using six by (auto simp: questions_def)
  have run: "run_research env subreddit_text n_posts genre_input qs_text =
           pipeline env (strip subreddit_text) n_posts genre_input (take 5 (nonblank_lines qs_text))"
    if "strip subreddit_text \<noteq> []"
    using that ne q by (simp add: run_research_def Let_def)
  show "run_research env subreddit_text n_posts genre_input qs_text =
           pipeline env (strip subreddit_text) n_posts genre_input (take 5 (nonblank_lines qs_text))"
    if "strip subreddit_text \<noteq> []"
    using that by (rule run)
  show "\<forall>m msgs.
         ModelCall m msgs \<in> set (snd (run_research env subreddit_text n_posts genre_input qs_text))
         \<longrightarrow> length msgs = 2 \<or>
             last msgs = (lit ''user'', q_block (take 5 (nonblank_lines qs_text)))"
  proof (cases "strip subreddit_text = []")
    case True
    then show ?thesis by (simp add: run_research_def Let_def)
  next
    case False
    show ?thesis unfolding run [OF False] using pipeline_model_calls by blast
  qed
  show "\<exists>corpus.
          ModelCall (lit ''o3'')
            (report_messages env genre_input (length posts) corpus
               (take 5 (nonblank_lines qs_text)))
          \<in> set (snd (run_research env subreddit_text n_posts genre_input qs_text))"
    if h: "strip subreddit_text \<noteq> [] \<and>
       reddit_new env (strip subreddit_text) n_posts = map Inr posts \<and>
       (\<forall>n chunk. \<exists>kvs. model_reply env n default_model chunk = Inr (JObject kvs) \<and>
                      (\<forall>k v. (k, v) \<in> set kvs \<longrightarrow> (\<exists>ob. v = JObject ob)))"
  proof -
    have a: "strip subreddit_text \<noteq> []"
      and b: "reddit_new env (strip subreddit_text) n_posts = map Inr posts"
      and c: "\<forall>n chunk. \<exists>kvs. model_reply env n default_model chunk = Inr (JObject kvs) \<and>
                      (\<forall>k v. (k, v) \<in> set kvs \<longrightarrow> (\<exists>ob. v = JObject ob))"
      using h by blast+
    show ?thesis unfolding run [OF a] by (rule run_reaches_synthesis [OF b c])
  qed
qed

lemma nonblank_blank_text: "nonblank_lines blank_text = []"
  by (simp add: nonblank_lines_def splitlines_def blank_text_def line_break_def strip_def isspace_def)

lemma nonblank_six_questions:
  "nonblank_lines six_questions = [[97], [98], [99], [100], [101], [102]]"
  by (simp add: nonblank_lines_def splitlines_def six_questions_def line_break_def strip_def
      isspace_def)

theorem questions_guard_and_cap_witness:
  "nonblank_lines blank_text = [] \<and>
   run_research forum_env (lit ''python'') 10 (lit ''ai'') blank_text =
     (Stopped, [ErrorBox (lit ''Enter at least one research question.'')]) \<and>
   6 \<le> length (nonblank_lines six_questions) \<and>
   questions six_questions = [[97], [98], [99], [100], [101]] \<and>
   strip (lit ''python'') \<noteq> [] \<and>
   reddit_new forum_env (strip (lit ''python'')) 10 = map Inr [demo_post] \<and>
   (\<forall>n chunk. \<exists>kvs. model_reply forum_env n default_model chunk = Inr (JObject kvs) \<and>
                      (\<forall>k v. (k, v) \<in> set kvs \<longrightarrow> (\<exists>ob. v = JObject ob))) \<and>
   run_research forum_env (lit ''python'') 10 (lit ''ai'') six_questions =
     pipeline forum_env (lit ''python'') 10 (lit ''ai'') [[97], [98], [99], [100], [101]] \<and>
   (\<exists>corpus.
      ModelCall (lit ''o3'')
        (report_messages forum_env (lit ''ai'') 1 corpus [[97], [98], [99], [100], [101]])
      \<in> set (snd (run_research forum_env (lit ''python'') 10 (lit ''ai'') six_questions)))"
proof -
  have s: "strip (lit ''python'') = lit ''python''"
    by (simp add: strip_def isspace_def lit_def)
  have ne: "lit ''python'' \<noteq> []" by (simp add: lit_def)
  have six: "6 \<le> length (nonblank_lines six_questions)"
    by (simp add: nonblank_six_questions)
  have posts: "reddit_new forum_env (strip (lit ''python'')) 10 = map Inr [demo_post]"
    by (simp add: forum_env_def)
  have good: "\<forall>n chunk. \<exists>kvs. model_reply forum_env n default_model chunk = Inr (JObject kvs) \<and>
                      (\<forall>k v. (k, v) \<in> set kvs \<longrightarrow> (\<exists>ob. v = JObject ob))"
    by (simp add: model_reply_def forum_env_def demo_env_def)
  have t5: "take 5 (nonblank_lines six_questions) = [[97], [98], [99], [100], [101]]"
    by (simp add: nonblank_six_questions)
  have sne: "strip (lit ''python'') \<noteq> []" using s ne by simp
  note zero = questions_guard_and_cap [of blank_text forum_env "lit ''python''" 10 "lit ''ai''"]
  note cap = questions_guard_and_cap
    [of six_questions forum_env "lit ''python''" 10 "lit ''ai''" "[demo_post]"]
  have blocked: "run_research forum_env (lit ''python'') 10 (lit ''ai'') blank_text =
     (Stopped, [ErrorBox (lit ''Enter at least one research question.'')])"
    using zero nonblank_blank_text sne by simp
  have q: "questions six_questions = take 5 (nonblank_lines six_questions)"
    using cap six by blast
  have run: "run_research forum_env (lit ''python'') 10 (lit ''ai'') six_questions =
     pipeline forum_env (strip (lit ''python'')) 10 (lit ''ai'')
       (take 5 (nonblank_lines six_questions))"
    using cap six sne by blast
  have call: "\<exists>corpus.
      ModelCall (lit ''o3'')
        (report_messages forum_env (lit ''ai'') (length [demo_post]) corpus
           (take 5 (nonblank_lines six_questions)))
      \<in> set (snd (run_research forum_env (lit ''python'') 10 (lit ''ai'') six_questions))"
    using cap six sne posts good by blast
  show ?thesis
    using nonblank_blank_text blocked six q sne posts good run call
    unfolding t5 s by simp
qed




end
